theory Spec2Isabelle
  imports Complex_Main "HOL-Library.Word"
begin

section \<open>System identification notebook: the model\<close>

text \<open>
  The notebook \<^verbatim>\<open>demo_system_id.ipynb\<close> defines a handful of NumPy routines:
  \<^verbatim>\<open>make_state_trace\<close>, \<^verbatim>\<open>identify_system\<close>, \<^verbatim>\<open>make_random_system\<close>,
  \<^verbatim>\<open>make_random_system_from_eigenvalues\<close>, \<^verbatim>\<open>make_ccf_system_from_eigenvalues\<close>,
  \<^verbatim>\<open>roots2coeffs\<close> and \<^verbatim>\<open>transform_state_trace\<close>.

  Conventions of the embedding.
  \<^item> \<^verbatim>\<open>float64\<close> and \<^verbatim>\<open>complex128\<close> arithmetic is idealised to exact arithmetic on
    \<^typ>\<open>real\<close> and \<^typ>\<open>complex\<close>: rounding is left out, so "equal to numerical
    tolerance" reads as equality.
  \<^item> \<^verbatim>\<open>int64\<close> arithmetic is arithmetic on \<^typ>\<open>64 word\<close>: it wraps modulo \<open>2\<^sup>6\<^sup>4\<close>, and
    \<^const>\<open>sint\<close> reads the signed value.
  \<^item> A 1-D array is the list of its entries, a 2-D array the list of its rows. A list of
    rows does not record a column count when there is no row.
  \<^item> A Python exception is a value \<open>Inl e\<close> of the result.
  \<^item> The ambient random generator is an explicit stream of uniform draws that every
    randomised routine takes and returns advanced.
  \<^item> \<^verbatim>\<open>np.linalg.lstsq\<close> and \<^verbatim>\<open>np.linalg.inv\<close> are LAPACK routines outside the
    notebook: the routines that call them take them as parameters, and the theorems
    assume their documented contracts.
\<close>

subsection \<open>Exceptions\<close>

datatype error =
    AssertionError string
  | ValueError
  | IndexError
  | LinAlgError

subsection \<open>Vectors and matrices\<close>

text \<open>
  The notebook's arrays hold reals (\<open>vec\<close>, \<open>mat\<close>); the arithmetic of vectors and matrices
  is defined over any commutative ring, so that complex eigenvectors can be spoken of.
\<close>

type_synonym vec = "real list"
type_synonym mat = "real list list"

definition is_mat :: "nat \<Rightarrow> nat \<Rightarrow> 'a list list \<Rightarrow> bool" where
  "is_mat r c m \<longleftrightarrow> length m = r \<and> (\<forall>row \<in> set m. length row = c)"

definition ncols :: "'a list list \<Rightarrow> nat" where
  "ncols m = (case m of [] \<Rightarrow> 0 | row # _ \<Rightarrow> length row)"

definition col :: "'a list list \<Rightarrow> nat \<Rightarrow> 'a list" where
  "col m j = map (\<lambda>row. row ! j) m"

definition dot :: "'a::comm_ring_1 list \<Rightarrow> 'a list \<Rightarrow> 'a" where
  "dot u v = (\<Sum>k < length u. u ! k * v ! k)"

definition mat_vec :: "'a::comm_ring_1 list list \<Rightarrow> 'a list \<Rightarrow> 'a list" where
  "mat_vec m v = map (\<lambda>row. dot row v) m"

definition mat_mul :: "'a::comm_ring_1 list list \<Rightarrow> 'a list list \<Rightarrow> 'a list list" where
  "mat_mul a b = map (\<lambda>row. map (\<lambda>j. dot row (col b j)) [0..<ncols b]) a"

definition mat_T :: "'a list list \<Rightarrow> 'a list list" where
  "mat_T m = map (col m) [0..<ncols m]"

definition vec_add :: "'a::comm_ring_1 list \<Rightarrow> 'a list \<Rightarrow> 'a list" where
  "vec_add u v = map2 (+) u v"

definition vec_sub :: "'a::comm_ring_1 list \<Rightarrow> 'a list \<Rightarrow> 'a list" where
  "vec_sub u v = map2 (-) u v"

definition mat_add :: "'a::comm_ring_1 list list \<Rightarrow> 'a list list \<Rightarrow> 'a list list" where
  "mat_add a b = map2 vec_add a b"

definition mat_sub :: "'a::comm_ring_1 list list \<Rightarrow> 'a list list \<Rightarrow> 'a list list" where
  "mat_sub a b = map2 vec_sub a b"

definition identity :: "nat \<Rightarrow> 'a::comm_ring_1 list list" where
  "identity n = map (\<lambda>i. map (\<lambda>j. if i = j then 1 else 0) [0..<n]) [0..<n]"

definition sumsq :: "vec \<Rightarrow> real" where
  "sumsq v = (\<Sum>x \<leftarrow> v. x * x)"

definition frob2 :: "mat \<Rightarrow> real" where
  "frob2 m = (\<Sum>row \<leftarrow> m. sumsq row)"

subsection \<open>A fragment of NumPy: arrays of rank at most two, broadcasting\<close>

text \<open>
  \<^verbatim>\<open>make_state_trace\<close> combines arrays of different ranks with \<^verbatim>\<open>*\<close>, \<^verbatim>\<open>+\<close>,
  \<^verbatim>\<open>.squeeze()\<close> and an indexed assignment, so its result depends on NumPy's broadcasting
  rules. They are modelled for arrays of rank 0, 1 and 2.
\<close>

datatype ndarray = Arr0 real | Arr1 "real list" | Arr2 "real list list"

fun sequence :: "(error + 'a) list \<Rightarrow> error + 'a list" where
  "sequence [] = Inr []"
| "sequence (x # xs) =
     (case x of
        Inl e \<Rightarrow> Inl e
      | Inr y \<Rightarrow> (case sequence xs of Inl e \<Rightarrow> Inl e | Inr ys \<Rightarrow> Inr (y # ys)))"

text \<open>
  Two 1-D operands: equal lengths combine entry by entry, a length-1 operand is
  stretched, anything else is "operands could not be broadcast together".
\<close>

definition bc1 :: "(real \<Rightarrow> real \<Rightarrow> real) \<Rightarrow> real list \<Rightarrow> real list \<Rightarrow> error + real list" where
  "bc1 f u v =
     (if length u = length v then Inr (map2 f u v)
      else if length u = 1 then Inr (map (f (u ! 0)) v)
      else if length v = 1 then Inr (map (\<lambda>x. f x (v ! 0)) u)
      else Inl ValueError)"

text \<open>Two 2-D operands: the same rule on the row axis, then on each pair of rows.\<close>

definition bc2 :: "(real \<Rightarrow> real \<Rightarrow> real) \<Rightarrow> real list list \<Rightarrow> real list list
    \<Rightarrow> error + real list list" where
  "bc2 f a b =
     (if length a = length b then sequence (map2 (bc1 f) a b)
      else if length a = 1 then sequence (map (bc1 f (a ! 0)) b)
      else if length b = 1 then sequence (map (\<lambda>row. bc1 f row (b ! 0)) a)
      else Inl ValueError)"

text \<open>An elementwise binary operator (\<^verbatim>\<open>*\<close> or \<^verbatim>\<open>+\<close>); a 1-D operand counts as one row.\<close>

fun np_binop :: "(real \<Rightarrow> real \<Rightarrow> real) \<Rightarrow> ndarray \<Rightarrow> ndarray \<Rightarrow> error + ndarray" where
  "np_binop f (Arr0 x) (Arr0 y) = Inr (Arr0 (f x y))"
| "np_binop f (Arr0 x) (Arr1 v) = Inr (Arr1 (map (f x) v))"
| "np_binop f (Arr1 u) (Arr0 y) = Inr (Arr1 (map (\<lambda>a. f a y) u))"
| "np_binop f (Arr0 x) (Arr2 b) = Inr (Arr2 (map (map (f x)) b))"
| "np_binop f (Arr2 a) (Arr0 y) = Inr (Arr2 (map (map (\<lambda>a. f a y)) a))"
| "np_binop f (Arr1 u) (Arr1 v) = map_sum id Arr1 (bc1 f u v)"
| "np_binop f (Arr2 a) (Arr1 v) = map_sum id Arr2 (bc2 f a [v])"
| "np_binop f (Arr1 u) (Arr2 b) = map_sum id Arr2 (bc2 f [u] b)"
| "np_binop f (Arr2 a) (Arr2 b) = map_sum id Arr2 (bc2 f a b)"

text \<open>\<^verbatim>\<open>.squeeze()\<close>: every axis of length one is removed.\<close>

fun squeeze :: "ndarray \<Rightarrow> ndarray" where
  "squeeze (Arr0 x) = Arr0 x"
| "squeeze (Arr1 v) = (if length v = 1 then Arr0 (v ! 0) else Arr1 v)"
| "squeeze (Arr2 m) =
     (if length m = 1 then (if length (m ! 0) = 1 then Arr0 (m ! 0 ! 0) else Arr1 (m ! 0))
      else if m \<noteq> [] \<and> ncols m = 1 then Arr1 (map (\<lambda>row. row ! 0) m)
      else Arr2 m)"

text \<open>\<^verbatim>\<open>a @ x\<close> for a 2-D \<open>a\<close> and a 1-D \<open>x\<close>: the inner dimensions must agree.\<close>

definition matmul_vec :: "mat \<Rightarrow> vec \<Rightarrow> error + vec" where
  "matmul_vec a x = (if a \<noteq> [] \<and> ncols a \<noteq> length x then Inl ValueError else Inr (mat_vec a x))"

text \<open>\<^verbatim>\<open>a @ b\<close> for 2-D operands.\<close>

definition matmul :: "mat \<Rightarrow> mat \<Rightarrow> error + mat" where
  "matmul a b = (if a \<noteq> [] \<and> ncols a \<noteq> length b then Inl ValueError else Inr (mat_mul a b))"

text \<open>
  \<^verbatim>\<open>arr[i] = value\<close> for a row \<open>arr[i]\<close> of length \<open>n\<close>: the value is broadcast to shape
  \<open>(n,)\<close>; leading axes of length one of the value are dropped first.
\<close>

definition setitem_1d :: "nat \<Rightarrow> real list \<Rightarrow> error + real list" where
  "setitem_1d n w =
     (if length w = n then Inr w
      else if length w = 1 then Inr (replicate n (w ! 0))
      else Inl ValueError)"

fun setitem_row :: "nat \<Rightarrow> ndarray \<Rightarrow> error + real list" where
  "setitem_row n (Arr0 x) = Inr (replicate n x)"
| "setitem_row n (Arr1 w) = setitem_1d n w"
| "setitem_row n (Arr2 m) = (if length m = 1 then setitem_1d n (m ! 0) else Inl ValueError)"

subsection \<open>\<^verbatim>\<open>make_state_trace\<close>\<close>

text \<open>
  The loop body:
  \<^verbatim>\<open>state_trace[i + 1] = a_matrix @ state_trace[i] + (b_matrix * inpt[i]).squeeze()\<close>,
  where \<open>u\<close> is the row \<^verbatim>\<open>inpt[i]\<close> and \<open>x\<close> the row \<^verbatim>\<open>state_trace[i]\<close>.
\<close>

definition trace_step :: "mat \<Rightarrow> ndarray \<Rightarrow> real list \<Rightarrow> real list \<Rightarrow> error + real list" where
  "trace_step a_matrix b_matrix u x =
     (case matmul_vec a_matrix x of
        Inl e \<Rightarrow> Inl e
      | Inr ax \<Rightarrow>
          (case np_binop (*) b_matrix (Arr1 u) of
             Inl e \<Rightarrow> Inl e
           | Inr bu \<Rightarrow>
               (case np_binop (+) (Arr1 ax) (squeeze bu) of
                  Inl e \<Rightarrow> Inl e
                | Inr s \<Rightarrow> setitem_row (length a_matrix) s)))"

text \<open>\<^verbatim>\<open>for i in range(n_timesteps): ...\<close>, over the indices still to visit.\<close>

fun trace_loop :: "mat \<Rightarrow> ndarray \<Rightarrow> mat \<Rightarrow> nat list \<Rightarrow> mat \<Rightarrow> error + mat" where
  "trace_loop a_matrix b_matrix inpt [] state_trace = Inr state_trace"
| "trace_loop a_matrix b_matrix inpt (i # rest) state_trace =
     (case trace_step a_matrix b_matrix (inpt ! i) (state_trace ! i) of
        Inl e \<Rightarrow> Inl e
      | Inr row \<Rightarrow> trace_loop a_matrix b_matrix inpt rest (state_trace[i + 1 := row]))"

text \<open>
  \<^verbatim>\<open>make_state_trace(a_matrix, b_matrix, inpt, initial_state=None)\<close>. \<open>inpt\<close> is the 2-D
  input array, one row per time step; \<open>b_matrix\<close> and \<open>initial_state\<close> are arrays of any
  rank, as the notebook passes both 1-D and 2-D input matrices.
\<close>

definition make_state_trace :: "mat \<Rightarrow> ndarray \<Rightarrow> mat \<Rightarrow> ndarray option \<Rightarrow> error + mat" where
  "make_state_trace a_matrix b_matrix inpt initial_state =
     (let n_states = length a_matrix;
          n_timesteps = length inpt;
          state_trace = replicate (n_timesteps + 1) (replicate n_states 0)
      in case setitem_row n_states
                (case initial_state of Some x0 \<Rightarrow> x0 | None \<Rightarrow> Arr1 (replicate n_states 0)) of
           Inl e \<Rightarrow> Inl e
         | Inr row0 \<Rightarrow>
             trace_loop a_matrix b_matrix inpt [0..<n_timesteps] (state_trace[0 := row0]))"

subsection \<open>\<^verbatim>\<open>identify_system\<close>\<close>

text \<open>
  \<^verbatim>\<open>identify_system(state_trace, inpt)\<close>, with \<^verbatim>\<open>np.linalg.lstsq\<close> as the parameter
  \<open>lstsq\<close>. An empty list stands for an array without a second axis, on which
  \<^verbatim>\<open>np.shape(state_trace)[1]\<close> raises; \<^verbatim>\<open>np.concatenate(..., axis=1)\<close> raises when the row
  counts differ.
\<close>

definition identify_system :: "(mat \<Rightarrow> mat \<Rightarrow> mat) \<Rightarrow> mat \<Rightarrow> mat \<Rightarrow> error + mat \<times> mat" where
  "identify_system lstsq state_trace inpt =
     (case state_trace of
        [] \<Rightarrow> Inl IndexError
      | row0 # _ \<Rightarrow>
          (let n_states = length row0;
               lsq_b = tl state_trace
           in if length (butlast state_trace) \<noteq> length inpt then Inl ValueError
              else
                (let lsq_a = map2 (@) (butlast state_trace) inpt;
                     ab_identified = lstsq lsq_a lsq_b;
                     a_identified = take n_states ab_identified;
                     b_identified = drop n_states ab_identified
                 in Inr (a_identified, b_identified))))"

subsection \<open>Random draws\<close>

text \<open>
  The generator state is the stream of the uniform draws still to come, each in
  \<open>[0, 1)\<close>. \<^verbatim>\<open>np.random.rand(k)\<close> takes the next \<open>k\<close> draws, \<^verbatim>\<open>np.random.rand(r, c)\<close>
  the next \<open>r * c\<close>, row by row.
\<close>

type_synonym rng = "nat \<Rightarrow> real"

definition rand :: "nat \<Rightarrow> rng \<Rightarrow> real list \<times> rng" where
  "rand k g = (map g [0..<k], \<lambda>i. g (i + k))"

definition rand2 :: "nat \<Rightarrow> nat \<Rightarrow> rng \<Rightarrow> mat \<times> rng" where
  "rand2 r c g = (map (\<lambda>i. map (\<lambda>j. g (i * c + j)) [0..<c]) [0..<r], \<lambda>i. g (i + r * c))"

subsection \<open>\<^verbatim>\<open>transform_state_trace\<close>\<close>

text \<open>
  \<^verbatim>\<open>transform_state_trace(state_trace, transformation_matrix=None)\<close>:
  \<^verbatim>\<open>state_trace @ t_mat.T\<close>, with a random \<open>t_mat\<close> when none is given.
\<close>

definition transform_state_trace :: "mat \<Rightarrow> mat option \<Rightarrow> rng \<Rightarrow> error + mat \<times> rng" where
  "transform_state_trace state_trace transformation_matrix g =
     (case state_trace of
        [] \<Rightarrow> Inl IndexError
      | row0 # _ \<Rightarrow>
          (let n_states = length row0;
               (t_mat, g') =
                 (case transformation_matrix of
                    None \<Rightarrow> (let (r, g1) = rand2 n_states n_states g
                             in (mat_add r (identity n_states), g1))
                  | Some t \<Rightarrow> (t, g))
           in case matmul state_trace (mat_T t_mat) of
                Inl e \<Rightarrow> Inl e
              | Inr transformed_state_trace \<Rightarrow> Inr (transformed_state_trace, g')))"

subsection \<open>\<^verbatim>\<open>roots2coeffs\<close>\<close>

text \<open>
  \<^verbatim>\<open>itertools.combinations(roots, i)\<close>: the \<open>i\<close>-element subsequences of \<open>roots\<close>, chosen
  by position, in lexicographic order of the positions.
\<close>

fun combinations :: "'a list \<Rightarrow> nat \<Rightarrow> 'a list list" where
  "combinations xs 0 = [[]]"
| "combinations [] (Suc k) = []"
| "combinations (x # xs) (Suc k) =
     map ((#) x) (combinations xs k) @ combinations xs (Suc k)"

text \<open>
  The argument \<^verbatim>\<open>roots\<close> as NumPy reads it when \<^verbatim>\<open>np.prod\<close> turns the list of tuples into
  an array. A sequence of Python integers, or an integer array, gives an \<^verbatim>\<open>int64\<close> array:
  its products and sums wrap. A sequence with a float or a complex entry gives a
  \<^verbatim>\<open>float64\<close> or \<^verbatim>\<open>complex128\<close> array, idealised to exact complex numbers. Python
  integers beyond the range of \<^verbatim>\<open>int64\<close> are left out.
\<close>

datatype roots = IntRoots "64 word list" | ComplexRoots "complex list"

text \<open>\<^verbatim>\<open>len(roots)\<close>.\<close>

fun len :: "roots \<Rightarrow> nat" where
  "len (IntRoots ws) = length ws"
| "len (ComplexRoots zs) = length zs"

text \<open>
  One pass of the loop body of \<^verbatim>\<open>roots2coeffs\<close>:
  \<^verbatim>\<open>a = list(combinations(roots, i)); prods = np.prod(a, axis=1); s = np.sum(prods);
  coeffs[i - 1] = np.power(-1, i) * s\<close>. The products, the sum and the product with the
  sign are taken in the element type of the array; \<open>to_complex\<close> is the conversion that
  the assignment into the complex array \<^verbatim>\<open>coeffs\<close> makes.
\<close>

definition coeff_step :: "('a::comm_ring_1 \<Rightarrow> complex) \<Rightarrow> 'a list \<Rightarrow> complex list \<Rightarrow> nat \<Rightarrow> complex list" where
  "coeff_step to_complex roots coeffs i =
     (let a = combinations roots i;
          prods = map prod_list a;
          s = sum_list prods
      in coeffs[i - 1 := to_complex ((- 1) ^ i * s)])"

text \<open>
  \<^verbatim>\<open>n = len(roots); coeffs = np.zeros(n, dtype=complex);
  for i in range(1, n + 1): ...; return coeffs\<close>, for either element type.
\<close>

definition coeff_loop :: "('a::comm_ring_1 \<Rightarrow> complex) \<Rightarrow> 'a list \<Rightarrow> complex list" where
  "coeff_loop to_complex roots =
     (let n = length roots;
          coeffs = replicate n 0
      in foldl (coeff_step to_complex roots) coeffs [1..<n + 1])"

definition roots2coeffs :: "roots \<Rightarrow> complex list" where
  "roots2coeffs roots =
     (case roots of
        IntRoots ws \<Rightarrow> coeff_loop (\<lambda>w. of_int (sint w)) ws
      | ComplexRoots zs \<Rightarrow> coeff_loop (\<lambda>z. z) zs)"

subsection \<open>\<^verbatim>\<open>make_ccf_system_from_eigenvalues\<close>\<close>

text \<open>\<^verbatim>\<open>m[i, j] = v\<close> on a 2-D array, for indices in range.\<close>

definition set2 :: "mat \<Rightarrow> nat \<Rightarrow> nat \<Rightarrow> real \<Rightarrow> mat" where
  "set2 m i j v = m[i := (m ! i)[j := v]]"

text \<open>
  \<^verbatim>\<open>make_ccf_system_from_eigenvalues(eigvals)\<close>. The two loops write
  \<^verbatim>\<open>a_matrix[i, i + 1] = 1\<close> and
  \<^verbatim>\<open>a_matrix[n_states - 1, n_states - 1 - i] = -np.real(coeffs[i])\<close>. With no eigenvalue,
  \<^verbatim>\<open>b_matrix[n_states - 1, 0] = 1\<close> indexes row \<open>-1\<close> of an array without rows and raises.
\<close>

definition make_ccf_system_from_eigenvalues :: "roots \<Rightarrow> error + mat \<times> mat" where
  "make_ccf_system_from_eigenvalues eigvals =
     (let n_states = len eigvals;
          a_matrix = replicate n_states (replicate n_states 0);
          coeffs = roots2coeffs eigvals;
          a_matrix = foldl (\<lambda>a i. set2 a i (i + 1) 1) a_matrix [0..<n_states - 1];
          a_matrix = foldl (\<lambda>a i. set2 a (n_states - 1) (n_states - 1 - i) (- Re (coeffs ! i)))
                       a_matrix [0..<n_states];
          b_matrix = replicate n_states [0]
      in if n_states = 0 then Inl IndexError
         else Inr (a_matrix, set2 b_matrix (n_states - 1) 0 1))"

subsection \<open>\<^verbatim>\<open>make_random_system_from_eigenvalues\<close>\<close>

text \<open>\<^verbatim>\<open>scipy.linalg.block_diag\<close> of at least one block.\<close>

fun block_diag :: "mat list \<Rightarrow> mat" where
  "block_diag [] = []"
| "block_diag (b # bs) =
     (let rest = block_diag bs
      in map (\<lambda>row. row @ replicate (ncols rest) 0) b @
         map (\<lambda>row. replicate (ncols b) 0 @ row) rest)"

text \<open>
  \<^verbatim>\<open>make_random_system_from_eigenvalues(eigvals_real, eigvals_complex, n_inputs=1)\<close>, with
  \<^verbatim>\<open>np.linalg.inv\<close> as the parameter \<open>np_inv\<close> (\<open>None\<close> when it raises \<^verbatim>\<open>LinAlgError\<close>).
  Without any eigenvalue \<^verbatim>\<open>block_diag()\<close> is an array of shape \<open>(1, 0)\<close> and the
  product with the \<open>0 \<times> 0\<close> inverse raises.
\<close>

definition make_random_system_from_eigenvalues ::
    "(mat \<Rightarrow> mat option) \<Rightarrow> real list \<Rightarrow> complex list \<Rightarrow> nat \<Rightarrow> rng \<Rightarrow> error + (mat \<times> mat) \<times> rng" where
  "make_random_system_from_eigenvalues np_inv eigvals_real eigvals_complex n_inputs g =
     (let n_states = length eigvals_real + 2 * length eigvals_complex;
          diag_blocks =
            map (\<lambda>z. [[z]]) eigvals_real @
            map (\<lambda>z. let a = Re z; b = Im z in [[a, b], [- b, a]]) eigvals_complex;
          mcf_mat = block_diag diag_blocks;
          (r, g1) = rand2 n_states n_states g;
          t_mat = mat_add r (identity n_states)
      in case np_inv t_mat of
           None \<Rightarrow> Inl LinAlgError
         | Some t_inv \<Rightarrow>
             if diag_blocks = [] then Inl ValueError
             else
               (let a_matrix = mat_mul (mat_mul t_inv mcf_mat) t_mat;
                    (b_matrix, g2) = rand2 n_states n_inputs g1
                in Inr ((a_matrix, b_matrix), g2)))"

subsection \<open>\<^verbatim>\<open>make_random_system\<close>\<close>

text \<open>
  \<^verbatim>\<open>make_random_system(n_states, n_inputs, z_min, z_max, must_have_real_eigenvalues,
  must_have_complex_eigenvalues, ccf)\<close>. \<open>n_states\<close> and \<open>n_inputs\<close> are Python integers.
  \<^verbatim>\<open>int(np.floor(n_random / 2))\<close> is \<open>n_random div 2\<close>. The body never reads
  \<open>n_inputs\<close>: the call of \<^verbatim>\<open>make_random_system_from_eigenvalues\<close> leaves its third
  argument to the default \<open>1\<close>.
\<close>

definition make_random_system ::
    "(mat \<Rightarrow> mat option) \<Rightarrow> int \<Rightarrow> int \<Rightarrow> real \<Rightarrow> real \<Rightarrow> real list \<Rightarrow> complex list \<Rightarrow> bool \<Rightarrow> rng
      \<Rightarrow> error + (mat \<times> mat) \<times> rng" where
  "make_random_system np_inv n_states n_inputs z_min z_max must_have_real_eigenvalues
       must_have_complex_eigenvalues ccf g =
     (let n_random = n_states - int (length must_have_real_eigenvalues)
                       - 2 * int (length must_have_complex_eigenvalues)
      in if \<not> n_random > 0 then Inl (AssertionError ''no random eigenvalues'')
         else
           (let n_real = nat (n_random mod 2);
                n_conj_pairs = nat (n_random div 2);
                (u_mags, g1) = rand n_conj_pairs g;
                z_mags = map (\<lambda>u. sqrt (z_min ^ 2 + u * (z_max ^ 2 - z_min ^ 2))) u_mags;
                (u_angles, g2) = rand n_conj_pairs g1;
                z_angles = map (\<lambda>u. 2 * pi * u) u_angles;
                z_random_complex =
                  map2 (\<lambda>m t. complex_of_real m * exp (\<i> * complex_of_real t)) z_mags z_angles;
                z_complex = z_random_complex @ must_have_complex_eigenvalues;
                z_real = must_have_real_eigenvalues;
                (z_real, g3) =
                  (if n_real \<noteq> 0
                   then (let (u_real, g3) = rand n_real g2;
                             z_random_real = map (\<lambda>u. z_min + u * (z_max - z_min)) u_real
                         in (z_real @ z_random_real, g3))
                   else (z_real, g2))
            in if ccf
               then (let z = ComplexRoots (z_complex @ map complex_of_real z_real)
                     in case make_ccf_system_from_eigenvalues z of
                          Inl e \<Rightarrow> Inl e
                        | Inr ab \<Rightarrow> Inr (ab, g3))
               else make_random_system_from_eigenvalues np_inv z_real z_complex 1 g3))"

subsection \<open>Exact instances of the LAPACK routines\<close>

text \<open>
  Gauss-Jordan elimination on the augmented matrix \<open>[t | I]\<close>, in exact arithmetic: the
  inverse when there is one, \<open>None\<close> when a column has no pivot. It is the instance of
  \<^verbatim>\<open>np.linalg.inv\<close> that concrete evaluations use.
\<close>

fun find_pivot :: "nat \<Rightarrow> nat \<Rightarrow> mat \<Rightarrow> nat option" where
  "find_pivot c i [] = None"
| "find_pivot c i (row # rows) = (if row ! c \<noteq> 0 then Some i else find_pivot c (Suc i) rows)"

definition eliminate :: "nat \<Rightarrow> mat \<Rightarrow> mat option" where
  "eliminate c m =
     (case find_pivot c c (drop c m) of
        None \<Rightarrow> None
      | Some r \<Rightarrow>
          (let swapped = m[c := m ! r, r := m ! c];
               p = swapped ! c;
               pivot_row = map (\<lambda>x. x / p ! c) p
           in Some (map (\<lambda>i. if i = c then pivot_row
                              else vec_sub (swapped ! i) (map ((*) (swapped ! i ! c)) pivot_row))
                      [0..<length swapped])))"

fun eliminate_all :: "nat list \<Rightarrow> mat \<Rightarrow> mat option" where
  "eliminate_all [] m = Some m"
| "eliminate_all (c # cs) m = (case eliminate c m of None \<Rightarrow> None | Some m' \<Rightarrow> eliminate_all cs m')"

definition exact_inv :: "mat \<Rightarrow> mat option" where
  "exact_inv t =
     (let n = length t
      in map_option (map (drop n)) (eliminate_all [0..<n] (map2 (@) t (identity n))))"

text \<open>
  A least-squares instance for regressors of full rank: the solution of the normal equations
  when the columns are independent, \<open>a\<^sup>T (a a\<^sup>T)\<^sup>-\<^sup>1 b\<close> when the rows are. It stands for
  \<^verbatim>\<open>np.linalg.lstsq\<close> in concrete evaluations on such regressors only: where neither Gram
  matrix is invertible, and for regressors without a row, it returns zeros or the empty
  list, which need not be what NumPy returns.
\<close>

definition exact_lstsq :: "mat \<Rightarrow> mat \<Rightarrow> mat" where
  "exact_lstsq a b =
     (case exact_inv (mat_mul (mat_T a) a) of
        Some g \<Rightarrow> mat_mul g (mat_mul (mat_T a) b)
      | None \<Rightarrow>
          (case exact_inv (mat_mul a (mat_T a)) of
             Some h \<Rightarrow> mat_mul (mat_T a) (mat_mul h b)
           | None \<Rightarrow> replicate (ncols a) (replicate (ncols b) 0)))"

subsection \<open>Notions the claims speak of\<close>

text \<open>
  The state-transition matrix that the two loops of
  \<^verbatim>\<open>make_ccf_system_from_eigenvalues\<close> leave behind.
\<close>

definition ccf_a :: "roots \<Rightarrow> mat" where
  "ccf_a eigvals = (let n = len eigvals in
     foldl (\<lambda>a i. set2 a (n - 1) (n - 1 - i) (- Re (roots2coeffs eigvals ! i)))
       (foldl (\<lambda>a i. set2 a i (i + 1) 1) (replicate n (replicate n 0)) [0..<n - 1]) [0..<n])"

text \<open>
  The eigenvalue lists \<open>z_real\<close> and \<open>z_complex\<close> and the generator state that
  \<^verbatim>\<open>make_random_system\<close> has built when it branches on \<open>ccf\<close>, for a positive
  \<open>n_random\<close>.
\<close>

definition drawn_eigenvalues ::
    "real \<Rightarrow> real \<Rightarrow> real list \<Rightarrow> complex list \<Rightarrow> int \<Rightarrow> rng \<Rightarrow> real list \<times> complex list \<times> rng" where
  "drawn_eigenvalues z_min z_max rs cs n_random g =
     (let n_real = nat (n_random mod 2);
          n_conj_pairs = nat (n_random div 2);
          u_mags = fst (rand n_conj_pairs g);
          g1 = snd (rand n_conj_pairs g);
          u_angles = fst (rand n_conj_pairs g1);
          g2 = snd (rand n_conj_pairs g1);
          z_random_complex =
            map2 (\<lambda>m t. complex_of_real m * exp (\<i> * complex_of_real t))
              (map (\<lambda>u. sqrt (z_min ^ 2 + u * (z_max ^ 2 - z_min ^ 2))) u_mags)
              (map (\<lambda>u. 2 * pi * u) u_angles)
      in (if n_real \<noteq> 0
          then rs @ map (\<lambda>u. z_min + u * (z_max - z_min)) (fst (rand n_real g2))
          else rs,
          z_random_complex @ cs,
          if n_real \<noteq> 0 then snd (rand n_real g2) else g2))"

text \<open>
  Controllable canonical form for the coefficients \<open>a\<^sub>1, \<dots>, a\<^sub>n\<close> of a monic polynomial:
  ones right above the diagonal and zeros elsewhere in every row but the last, the negated
  coefficients in reverse order in the last row, and the last unit vector as a column.
\<close>

definition is_ccf :: "complex list \<Rightarrow> mat \<Rightarrow> mat \<Rightarrow> bool" where
  "is_ccf coeffs a b \<longleftrightarrow>
     (let n = length coeffs
      in is_mat n n a \<and>
         (\<forall>i < n - 1. \<forall>j < n. a ! i ! j = (if j = i + 1 then 1 else 0)) \<and>
         map complex_of_real (a ! (n - 1)) = rev (map uminus coeffs) \<and>
         b = map (\<lambda>i. [if i = n - 1 then 1 else 0]) [0..<n])"

text \<open>
  The state sequence of the recurrence \<open>x[i + 1] = A x[i] + B u[i]\<close> from \<open>x[0] = x\<close>, as
  the specification words it, and the statement that a given sequence satisfies it.
\<close>

fun recurrence_trace :: "mat \<Rightarrow> mat \<Rightarrow> vec \<Rightarrow> mat \<Rightarrow> mat" where
  "recurrence_trace a b x [] = [x]"
| "recurrence_trace a b x (u # us) = x # recurrence_trace a b (vec_add (mat_vec a x) (mat_vec b u)) us"

definition obeys :: "mat \<Rightarrow> mat \<Rightarrow> mat \<Rightarrow> mat \<Rightarrow> bool" where
  "obeys a b inpt X \<longleftrightarrow>
     length X = length inpt + 1 \<and>
     (\<forall>i < length inpt. X ! (i + 1) = vec_add (mat_vec a (X ! i)) (mat_vec b (inpt ! i)))"

text \<open>The transpose of a matrix with \<open>c\<close> columns.\<close>

definition transposed :: "nat \<Rightarrow> 'a list list \<Rightarrow> 'a list list" where
  "transposed c m = map (col m) [0..<c]"

text \<open>
  The regression design matrix \<^verbatim>\<open>lsq_a\<close> of \<^verbatim>\<open>identify_system\<close>: row \<open>i\<close> is \<open>X[i]\<close>
  followed by \<open>U[i]\<close>. It has full column rank when no non-zero vector is mapped to zero.
\<close>

definition regressors :: "mat \<Rightarrow> mat \<Rightarrow> mat" where
  "regressors state_trace inpt = map2 (@) (butlast state_trace) inpt"

definition full_col_rank :: "mat \<Rightarrow> nat \<Rightarrow> bool" where
  "full_col_rank d k \<longleftrightarrow>
     (\<forall>v. length v = k \<and> mat_vec d v = replicate (length d) 0 \<longrightarrow> v = replicate k 0)"

text \<open>
  The documented contract of \<^verbatim>\<open>np.linalg.lstsq(a, b)\<close> for a solution \<open>x\<close> with \<open>r\<close> rows
  and \<open>c\<close> columns: it minimises the squared Frobenius norm of \<open>a x - b\<close>, and among the
  minimisers it has the least norm.
\<close>

definition residual :: "mat \<Rightarrow> mat \<Rightarrow> mat \<Rightarrow> real" where
  "residual a b x = frob2 (mat_sub (mat_mul a x) b)"

definition lstsq_spec :: "mat \<Rightarrow> mat \<Rightarrow> nat \<Rightarrow> nat \<Rightarrow> mat \<Rightarrow> bool" where
  "lstsq_spec a b r c x \<longleftrightarrow>
     is_mat r c x \<and>
     (\<forall>y. is_mat r c y \<longrightarrow> residual a b x \<le> residual a b y) \<and>
     (\<forall>y. is_mat r c y \<and> residual a b y = residual a b x \<longrightarrow> frob2 x \<le> frob2 y)"

text \<open>
  The elementary symmetric sum of degree \<open>k\<close> as the loop computes it, and the
  \<open>k\<close>-element sets of positions below \<open>n\<close> that Vieta's formulas sum over.
\<close>

definition esym :: "nat \<Rightarrow> 'a::comm_ring_1 list \<Rightarrow> 'a" where
  "esym k rs = sum_list (map prod_list (combinations rs k))"

definition index_sets :: "nat \<Rightarrow> nat \<Rightarrow> nat set set" where
  "index_sets n k = {S. S \<subseteq> {..<n} \<and> card S = k}"

text \<open>
  The integer that Vieta's formula gives for the coefficient \<open>a\<^sub>i\<close> of \<^verbatim>\<open>int64\<close> roots, before
  any wrap-around.
\<close>

definition int_vieta :: "64 word list \<Rightarrow> nat \<Rightarrow> int" where
  "int_vieta ws i = (- 1) ^ i * (\<Sum>S \<in> index_sets (length ws) i. \<Prod>j \<in> S. sint (ws ! j))"

text \<open>
  Eigenvalues. A real matrix is read as a complex one; \<open>z\<close> is an eigenvalue when some non-zero
  complex vector is mapped to \<open>z\<close> times itself. \<open>singular N n\<close> says the same of a matrix given
  by its entries: some non-zero vector is mapped to zero.
\<close>

definition cmat :: "mat \<Rightarrow> complex list list" where
  "cmat m = map (map complex_of_real) m"

definition eigenvalue :: "mat \<Rightarrow> complex \<Rightarrow> bool" where
  "eigenvalue m z \<longleftrightarrow>
     (\<exists>v. length v = length m \<and> v \<noteq> replicate (length m) 0 \<and>
          mat_vec (cmat m) v = map ((*) z) v)"

definition singular :: "(nat \<Rightarrow> nat \<Rightarrow> complex) \<Rightarrow> nat \<Rightarrow> bool" where
  "singular N n \<longleftrightarrow> (\<exists>v. (\<exists>j < n. v j \<noteq> 0) \<and> (\<forall>i < n. (\<Sum>j < n. N i j * v j) = 0))"

text \<open>
  The trace and the powers of a square matrix: the trace of the \<open>k\<close>-th power is the sum of
  the \<open>k\<close>-th powers of the eigenvalues, counted with multiplicity.
\<close>

definition trace :: "mat \<Rightarrow> real" where
  "trace m = (\<Sum>i < length m. m ! i ! i)"

fun mat_pow :: "mat \<Rightarrow> nat \<Rightarrow> mat" where
  "mat_pow m 0 = identity (length m)"
| "mat_pow m (Suc k) = mat_mul m (mat_pow m k)"

text \<open>
  The squared least-squares residual of the relation \<open>X[i + 1] \<approx> a X[i] + b U[i]\<close> over all
  time steps.
\<close>

definition fit_error :: "mat \<Rightarrow> mat \<Rightarrow> mat \<Rightarrow> mat \<Rightarrow> real" where
  "fit_error a b inpt X =
     (\<Sum>i < length inpt. sumsq (vec_sub (vec_add (mat_vec a (X ! i)) (mat_vec b (inpt ! i))) (X ! (i + 1))))"

subsection \<open>The notebook's first example\<close>

text \<open>
  \<^verbatim>\<open>a_known\<close> and \<^verbatim>\<open>b_known\<close> as the notebook sets them; \<^verbatim>\<open>u_trace\<close> is one
  three-step input, and \<^verbatim>\<open>x_trace\<close> the state trace \<^verbatim>\<open>make_state_trace\<close> returns for it.
\<close>

definition a_known :: mat where
  "a_known = [[0, 1], [3 / 10, 1 / 5]]"

definition b_known :: ndarray where
  "b_known = Arr1 [0, 1]"

definition u_trace :: mat where
  "u_trace = [[1], [2], [- 1]]"

definition x_trace :: mat where
  "x_trace = [[0, 0], [0, 1], [1, 11 / 5], [11 / 5, - (13 / 50)]]"

text \<open>
  The notebook's second example: the transformation \<^verbatim>\<open>t_mat\<close>, and the trace
  \<^verbatim>\<open>transform_state_trace(x_trace, t_mat)\<close>.
\<close>

definition t_mat_known :: mat where
  "t_mat_known = [[3, 1], [5, 2]]"

definition tx_trace :: mat where
  "tx_trace = [[0, 0], [1, 2], [26 / 5, 47 / 5], [317 / 50, 262 / 25]]"

section \<open>Properties\<close>

subsection \<open>Elementary symmetric sums\<close>

lemma esym_0 [simp]: "esym 0 rs = 1"
  by (simp add: esym_def)

lemma esym_Nil [simp]: "esym (Suc k) [] = 0"
  by (simp add: esym_def)

lemma esym_Cons [simp]: "esym (Suc k) (x # xs) = x * esym k xs + esym (Suc k) xs"
  by (simp add: esym_def comp_def sum_list_const_mult)

lemma esym_too_many: "length rs < k \<Longrightarrow> esym k rs = 0"
proof (induction rs arbitrary: k)
  case Nil
  then show ?case by (cases k) simp_all
next
  case (Cons x xs)
  then show ?case by (cases k) simp_all
qed

lemma foldl_coeff_step:
  "m \<le> length cs \<Longrightarrow>
   foldl (coeff_step h rs) cs [1..<m + 1] =
     map (\<lambda>i. h ((- 1) ^ (i + 1) * esym (i + 1) rs)) [0..<m] @ drop m cs"
proof (induction m)
  case 0
  then show ?case by simp
next
  case (Suc m)
  then have m: "m < length cs" by simp
  have "foldl (coeff_step h rs) cs [1..<Suc m + 1] =
        coeff_step h rs (foldl (coeff_step h rs) cs [1..<m + 1]) (Suc m)"
    by simp
  also have "\<dots> = coeff_step h rs (map (\<lambda>i. h ((- 1) ^ (i + 1) * esym (i + 1) rs)) [0..<m] @ drop m cs) (Suc m)"
    using Suc by simp
  also have "\<dots> = map (\<lambda>i. h ((- 1) ^ (i + 1) * esym (i + 1) rs)) [0..<Suc m] @ drop (Suc m) cs"
    using m by (simp add: coeff_step_def esym_def list_update_append Cons_nth_drop_Suc [symmetric] del: upt_Suc)
       (simp add: Cons_nth_drop_Suc [symmetric])
  finally show ?case .
qed

lemma coeff_loop_map:
  "coeff_loop h rs = map (\<lambda>i. h ((- 1) ^ (i + 1) * esym (i + 1) rs)) [0..<length rs]"
  using foldl_coeff_step [of "length rs" "replicate (length rs) 0" h rs]
  by (simp add: coeff_loop_def)

lemma roots2coeffs_map:
  "roots2coeffs (ComplexRoots rs) = map (\<lambda>i. (- 1) ^ (i + 1) * esym (i + 1) rs) [0..<length rs]"
  by (simp add: roots2coeffs_def coeff_loop_map)

lemma roots2coeffs_int:
  "roots2coeffs (IntRoots ws) =
     map (\<lambda>i. of_int (sint ((- 1) ^ (i + 1) * esym (i + 1) ws))) [0..<length ws]"
  by (simp add: roots2coeffs_def coeff_loop_map)

lemma esym_snoc: "esym (Suc k) (rs @ [x]) = esym (Suc k) rs + x * esym k rs"
proof (induction rs arbitrary: k)
  case Nil
  then show ?case by (cases k) simp_all
next
  case (Cons y rs)
  show ?case
  proof (cases k)
    case 0
    then show ?thesis using Cons [of 0] by (simp add: algebra_simps)
  next
    case (Suc j)
    then show ?thesis using Cons [of j] Cons [of "Suc j"] by (simp add: algebra_simps)
  qed
qed

lemma index_sets_0 [simp]: "index_sets n 0 = {{}}"
  by (auto simp: index_sets_def dest: finite_subset)

lemma index_sets_empty [simp]: "index_sets 0 (Suc k) = {}"
  by (auto simp: index_sets_def)

lemma finite_index_sets [simp]: "finite (index_sets n k)"
  by (simp add: index_sets_def)

lemma index_sets_Suc:
  "index_sets (Suc n) (Suc k) = index_sets n (Suc k) \<union> insert n ` index_sets n k"
proof (intro set_eqI iffI)
  fix S assume S: "S \<in> index_sets (Suc n) (Suc k)"
  show "S \<in> index_sets n (Suc k) \<union> insert n ` index_sets n k"
  proof (cases "n \<in> S")
    case False
    with S have "S \<subseteq> {..<n}" by (auto simp: index_sets_def less_Suc_eq)
    with S show ?thesis by (simp add: index_sets_def)
  next
    case True
    from S have fin: "finite S" by (auto simp: index_sets_def dest: finite_subset)
    have "S - {n} \<subseteq> {..<n}" using S by (auto simp: index_sets_def less_Suc_eq)
    moreover have "card (S - {n}) = k" using S True fin by (simp add: index_sets_def)
    ultimately have mem: "S - {n} \<in> index_sets n k" by (simp add: index_sets_def)
    have "S = insert n (S - {n})" using True by auto
    then have "S \<in> insert n ` index_sets n k" using mem by (rule image_eqI)
    then show ?thesis ..
  qed
next
  fix S assume "S \<in> index_sets n (Suc k) \<union> insert n ` index_sets n k"
  then show "S \<in> index_sets (Suc n) (Suc k)"
  proof
    assume "S \<in> index_sets n (Suc k)"
    then show ?thesis by (auto simp: index_sets_def)
  next
    assume "S \<in> insert n ` index_sets n k"
    then obtain S' where S': "S = insert n S'" "S' \<subseteq> {..<n}" "card S' = k"
      by (auto simp: index_sets_def)
    then have "finite S'" "n \<notin> S'" by (auto dest: finite_subset)
    with S' show ?thesis by (auto simp: index_sets_def)
  qed
qed

lemma esym_index_sets:
  "esym k rs = (\<Sum>S \<in> index_sets (length rs) k. \<Prod>j \<in> S. rs ! j)"
proof (induction rs arbitrary: k rule: rev_induct)
  case Nil
  then show ?case by (cases k) simp_all
next
  case (snoc x rs)
  show ?case
  proof (cases k)
    case 0
    then show ?thesis by simp
  next
    case (Suc j)
    let ?n = "length rs"
    have disj: "index_sets ?n (Suc j) \<inter> insert ?n ` index_sets ?n j = {}"
      by (auto simp: index_sets_def)
    have inj: "inj_on (insert ?n) (index_sets ?n j)"
    proof (rule inj_onI)
      fix A B assume "A \<in> index_sets ?n j" "B \<in> index_sets ?n j" "insert ?n A = insert ?n B"
      moreover from this have "?n \<notin> A" "?n \<notin> B" by (auto simp: index_sets_def)
      ultimately show "A = B" by (simp add: insert_ident)
    qed
    have old: "(\<Sum>S \<in> index_sets ?n (Suc j). \<Prod>i \<in> S. (rs @ [x]) ! i) =
               (\<Sum>S \<in> index_sets ?n (Suc j). \<Prod>i \<in> S. rs ! i)"
      by (intro sum.cong prod.cong refl) (auto simp: index_sets_def nth_append)
    have new: "(\<Sum>S \<in> index_sets ?n j. \<Prod>i \<in> insert ?n S. (rs @ [x]) ! i) =
               (\<Sum>S \<in> index_sets ?n j. x * (\<Prod>i \<in> S. rs ! i))"
    proof (intro sum.cong refl)
      fix S assume S: "S \<in> index_sets ?n j"
      then have fin: "finite S" and notin: "?n \<notin> S"
        by (auto simp: index_sets_def dest: finite_subset)
      have "(\<Prod>i \<in> S. (rs @ [x]) ! i) = (\<Prod>i \<in> S. rs ! i)"
        using S by (intro prod.cong refl) (auto simp: index_sets_def nth_append)
      with fin notin show "(\<Prod>i \<in> insert ?n S. (rs @ [x]) ! i) = x * (\<Prod>i \<in> S. rs ! i)"
        by simp
    qed
    have "(\<Sum>S \<in> index_sets (Suc ?n) (Suc j). \<Prod>i \<in> S. (rs @ [x]) ! i) =
          (\<Sum>S \<in> index_sets ?n (Suc j). \<Prod>i \<in> S. (rs @ [x]) ! i) +
          (\<Sum>S \<in> insert ?n ` index_sets ?n j. \<Prod>i \<in> S. (rs @ [x]) ! i)"
      unfolding index_sets_Suc by (rule sum.union_disjoint) (simp_all add: disj)
    also have "(\<Sum>S \<in> insert ?n ` index_sets ?n j. \<Prod>i \<in> S. (rs @ [x]) ! i) =
          (\<Sum>S \<in> index_sets ?n j. \<Prod>i \<in> insert ?n S. (rs @ [x]) ! i)"
      using inj by (simp only: sum.reindex o_def)
    also have "\<dots> = x * esym j rs"
      unfolding new snoc [of j] by (simp only: sum_distrib_left)
    also have "(\<Sum>S \<in> index_sets ?n (Suc j). \<Prod>i \<in> S. (rs @ [x]) ! i) = esym (Suc j) rs"
      unfolding old snoc [of "Suc j"] ..
    finally show ?thesis by (simp only: Suc esym_snoc length_append_singleton)
  qed
qed

lemma monic_expand:
  "(\<Prod>r \<leftarrow> rs. s - r) = (\<Sum>i \<le> length rs. (- 1) ^ i * esym i rs * s ^ (length rs - i))"
proof (induction rs)
  case Nil
  then show ?case by simp
next
  case (Cons x xs)
  let ?n = "length xs"
  let ?P = "\<Sum>i \<le> ?n. (- 1) ^ i * esym i xs * s ^ (?n - i)"
  have "(\<Sum>i \<le> Suc ?n. (- 1) ^ i * esym i (x # xs) * s ^ (Suc ?n - i)) =
        s ^ Suc ?n + (\<Sum>i \<le> ?n. (- 1) ^ Suc i * esym (Suc i) (x # xs) * s ^ (?n - i))"
    by (simp add: sum.atMost_Suc_shift del: sum.atMost_Suc)
  also have "(\<Sum>i \<le> ?n. (- 1) ^ Suc i * esym (Suc i) (x # xs) * s ^ (?n - i)) =
        (\<Sum>i \<le> ?n. (- 1) ^ Suc i * esym (Suc i) xs * s ^ (?n - i)) - x * ?P"
    by (simp add: algebra_simps sum.distrib sum_distrib_left sum_subtractf del: sum.atMost_Suc)
  also have "s ^ Suc ?n + ((\<Sum>i \<le> ?n. (- 1) ^ Suc i * esym (Suc i) xs * s ^ (?n - i)) - x * ?P)
        = (s ^ Suc ?n + (\<Sum>i \<le> ?n. (- 1) ^ Suc i * esym (Suc i) xs * s ^ (?n - i))) - x * ?P"
    by simp
  also have "s ^ Suc ?n + (\<Sum>i \<le> ?n. (- 1) ^ Suc i * esym (Suc i) xs * s ^ (?n - i)) =
        (\<Sum>i \<le> Suc ?n. (- 1) ^ i * esym i xs * s ^ (Suc ?n - i))"
    by (simp add: sum.atMost_Suc_shift del: sum.atMost_Suc)
  also have "\<dots> = s * ?P"
  proof -
    have "(\<Sum>i \<le> Suc ?n. (- 1) ^ i * esym i xs * s ^ (Suc ?n - i)) =
          (\<Sum>i \<le> ?n. (- 1) ^ i * esym i xs * s ^ (Suc ?n - i))"
      by (simp add: esym_too_many)
    also have "\<dots> = (\<Sum>i \<le> ?n. s * ((- 1) ^ i * esym i xs * s ^ (?n - i)))"
      by (intro sum.cong refl) (simp add: Suc_diff_le)
    finally show ?thesis by (simp add: sum_distrib_left)
  qed
  finally show ?case using Cons by (simp add: algebra_simps)
qed

subsection \<open>Shapes, loops and linear algebra\<close>

lemma is_mat_nth: "is_mat r c m \<longleftrightarrow> length m = r \<and> (\<forall>i < r. length (m ! i) = c)"
  by (auto simp: is_mat_def all_set_conv_all_nth)

lemma is_mat_set2: "is_mat r c m \<Longrightarrow> is_mat r c (set2 m i j v)"
  by (cases "i < length m") (auto simp: is_mat_nth set2_def nth_list_update)

lemma set2_nth:
  "is_mat r c m \<Longrightarrow> i < r \<Longrightarrow> j < c \<Longrightarrow> i' < r \<Longrightarrow> j' < c \<Longrightarrow>
   set2 m i j v ! i' ! j' = (if i' = i \<and> j' = j then v else m ! i' ! j')"
  by (auto simp: is_mat_nth set2_def nth_list_update)

lemma is_mat_replicate [simp]: "is_mat r c (replicate r (replicate c x))"
  by (simp add: is_mat_def)

lemma ccf_first_loop:
  "k \<le> n - 1 \<Longrightarrow>
   is_mat n n (foldl (\<lambda>a i. set2 a i (i + 1) 1) (replicate n (replicate n 0)) [0..<k]) \<and>
   (\<forall>i < n. \<forall>j < n.
      foldl (\<lambda>a i. set2 a i (i + 1) 1) (replicate n (replicate n 0)) [0..<k] ! i ! j =
        (if i < k \<and> j = i + 1 then 1 else 0))"
proof (induction k)
  case 0
  then show ?case by simp
next
  case (Suc k)
  let ?A = "foldl (\<lambda>a i. set2 a i (i + 1) 1) (replicate n (replicate n 0)) [0..<k]"
  from Suc have k: "k < n" "k + 1 < n" and m: "is_mat n n ?A"
    and ih: "\<And>i j. i < n \<Longrightarrow> j < n \<Longrightarrow> ?A ! i ! j = (if i < k \<and> j = i + 1 then 1 else 0)"
    by auto
  have step: "foldl (\<lambda>a i. set2 a i (i + 1) 1) (replicate n (replicate n 0)) [0..<Suc k] =
              set2 ?A k (k + 1) 1"
    by simp
  show ?case
    unfolding step
  proof (intro conjI allI impI)
    show "is_mat n n (set2 ?A k (k + 1) 1)" using m by (rule is_mat_set2)
  next
    fix i j assume "i < n" "j < n"
    then show "set2 ?A k (k + 1) 1 ! i ! j = (if i < Suc k \<and> j = i + 1 then 1 else 0)"
      using set2_nth [OF m k(1) k(2), of i j 1] ih [of i j] by (auto simp: less_Suc_eq)
  qed
qed

lemma ccf_second_loop:
  "is_mat n n a0 \<Longrightarrow> k \<le> n \<Longrightarrow>
   is_mat n n (foldl (\<lambda>a i. set2 a (n - 1) (n - 1 - i) (c i)) a0 [0..<k]) \<and>
   (\<forall>i < n. \<forall>j < n.
      foldl (\<lambda>a i. set2 a (n - 1) (n - 1 - i) (c i)) a0 [0..<k] ! i ! j =
        (if i = n - 1 \<and> n - 1 - j < k then c (n - 1 - j) else a0 ! i ! j))"
proof (induction k)
  case 0
  then show ?case by simp
next
  case (Suc k)
  let ?A = "foldl (\<lambda>a i. set2 a (n - 1) (n - 1 - i) (c i)) a0 [0..<k]"
  from Suc have k: "k < n" and m: "is_mat n n ?A"
    and ih: "\<And>i j. i < n \<Longrightarrow> j < n \<Longrightarrow>
        ?A ! i ! j = (if i = n - 1 \<and> n - 1 - j < k then c (n - 1 - j) else a0 ! i ! j)"
    by auto
  have step: "foldl (\<lambda>a i. set2 a (n - 1) (n - 1 - i) (c i)) a0 [0..<Suc k] =
              set2 ?A (n - 1) (n - 1 - k) (c k)"
    by simp
  have r: "n - 1 < n" "n - 1 - k < n" using k by auto
  show ?case
    unfolding step
  proof (intro conjI allI impI)
    show "is_mat n n (set2 ?A (n - 1) (n - 1 - k) (c k))" using m by (rule is_mat_set2)
  next
    fix i j assume ij: "i < n" "j < n"
    have "n - 1 - j = k \<longleftrightarrow> j = n - 1 - k" using k ij by auto
    then show "set2 ?A (n - 1) (n - 1 - k) (c k) ! i ! j =
        (if i = n - 1 \<and> n - 1 - j < Suc k then c (n - 1 - j) else a0 ! i ! j)"
      using set2_nth [OF m r ij, of "c k"] ih [OF ij] ij k by (auto simp: less_Suc_eq)
  qed
qed

lemma ccf_a_entries:
  assumes "n = len eigvals"
  shows "is_mat n n (ccf_a eigvals)"
    and "\<And>i j. i < n \<Longrightarrow> j < n \<Longrightarrow> ccf_a eigvals ! i ! j =
        (if i = n - 1 then - Re (roots2coeffs eigvals ! (n - 1 - j))
         else if j = i + 1 then 1 else 0)"
proof -
  let ?A1 = "foldl (\<lambda>a i. set2 a i (i + 1) 1) (replicate n (replicate n 0)) [0..<n - 1]"
  let ?c = "\<lambda>i. - Re (roots2coeffs eigvals ! i)"
  have 1: "is_mat n n ?A1"
    and e1: "\<And>i j. i < n \<Longrightarrow> j < n \<Longrightarrow> ?A1 ! i ! j = (if i < n - 1 \<and> j = i + 1 then 1 else 0)"
    using ccf_first_loop [of "n - 1" n] by auto
  have 2: "is_mat n n (ccf_a eigvals)"
    and e2: "\<And>i j. i < n \<Longrightarrow> j < n \<Longrightarrow> ccf_a eigvals ! i ! j =
        (if i = n - 1 \<and> n - 1 - j < n then ?c (n - 1 - j) else ?A1 ! i ! j)"
    using ccf_second_loop [OF 1, of n ?c] assms by (auto simp: ccf_a_def Let_def)
  show "is_mat n n (ccf_a eigvals)" by (rule 2)
  fix i j assume ij: "i < n" "j < n"
  then show "ccf_a eigvals ! i ! j =
        (if i = n - 1 then - Re (roots2coeffs eigvals ! (n - 1 - j))
         else if j = i + 1 then 1 else 0)"
    using e2 [OF ij] e1 [OF ij] by auto
qed

lemma make_ccf_eq:
  "0 < len eigvals \<Longrightarrow> make_ccf_system_from_eigenvalues eigvals =
     Inr (ccf_a eigvals, map (\<lambda>i. [if i = len eigvals - 1 then 1 else 0]) [0..<len eigvals])"
proof -
  assume n: "0 < len eigvals"
  let ?n = "len eigvals"
  have "set2 (replicate ?n [0]) (?n - 1) 0 1 = map (\<lambda>i. [if i = ?n - 1 then 1 else 0]) [0..<?n]"
    using n by (intro nth_equalityI) (auto simp: set2_def nth_list_update)
  then show ?thesis using n
    by (simp add: make_ccf_system_from_eigenvalues_def ccf_a_def Let_def)
qed

lemma length_roots2coeffs [simp]: "length (roots2coeffs rs) = len rs"
  by (cases rs) (simp_all add: roots2coeffs_map roots2coeffs_int)

lemma make_ccf_is_ccf:
  assumes n: "0 < len eigvals" and re: "\<forall>c \<in> set (roots2coeffs eigvals). Im c = 0"
  shows "\<exists>a b. make_ccf_system_from_eigenvalues eigvals = Inr (a, b) \<and>
               is_ccf (roots2coeffs eigvals) a b"
proof -
  let ?n = "len eigvals"
  let ?b = "map (\<lambda>i. [if i = ?n - 1 then 1 else 0]) [0..<?n]"
  note e = ccf_a_entries [where eigvals = eigvals and n = "len eigvals", OF refl]
  have last_row: "map complex_of_real (ccf_a eigvals ! (?n - 1)) = rev (map uminus (roots2coeffs eigvals))"
  proof (rule nth_equalityI)
    show "length (map complex_of_real (ccf_a eigvals ! (?n - 1))) = length (rev (map uminus (roots2coeffs eigvals)))"
      using e(1) n by (simp add: is_mat_nth)
  next
    fix j assume "j < length (map complex_of_real (ccf_a eigvals ! (?n - 1)))"
    then have j: "j < ?n" using e(1) n by (simp add: is_mat_nth)
    then have "roots2coeffs eigvals ! (?n - 1 - j) \<in> set (roots2coeffs eigvals)"
      using n by (intro nth_mem) simp
    with re have im: "Im (roots2coeffs eigvals ! (?n - 1 - j)) = 0" by blast
    have lj: "j < length (ccf_a eigvals ! (?n - 1))" using e(1) n j by (simp add: is_mat_nth)
    have "map complex_of_real (ccf_a eigvals ! (?n - 1)) ! j =
          complex_of_real (- Re (roots2coeffs eigvals ! (?n - 1 - j)))"
      using e(2) [of "?n - 1" j] n j lj by simp
    also have "\<dots> = - roots2coeffs eigvals ! (?n - 1 - j)"
      using im by (simp add: complex_eq_iff)
    also have "\<dots> = rev (map uminus (roots2coeffs eigvals)) ! j"
      using j n by (simp add: rev_nth)
    finally show "map complex_of_real (ccf_a eigvals ! (?n - 1)) ! j =
        rev (map uminus (roots2coeffs eigvals)) ! j" .
  qed
  have "is_ccf (roots2coeffs eigvals) (ccf_a eigvals) ?b"
    unfolding is_ccf_def Let_def length_roots2coeffs
  proof (intro conjI allI impI)
    show "is_mat ?n ?n (ccf_a eigvals)" by (rule e(1))
  next
    fix i j assume "i < ?n - 1" "j < ?n"
    then show "ccf_a eigvals ! i ! j = (if j = i + 1 then 1 else 0)"
      using e(2) [of i j] by simp
  next
    show "map complex_of_real (ccf_a eigvals ! (?n - 1)) = rev (map uminus (roots2coeffs eigvals))"
      by (rule last_row)
  qed simp
  then show ?thesis using make_ccf_eq [OF n] by blast
qed

lemma esym_hom:
  assumes "h 0 = 0" and "h 1 = 1" and "\<And>x y. h (x + y) = h x + h y" and "\<And>x y. h (x * y) = h x * h y"
  shows "esym k (map h xs) = h (esym k xs)"
proof (induction xs arbitrary: k)
  case Nil
  then show ?case using assms(1,2) by (cases k) simp_all
next
  case (Cons x xs)
  then show ?case using assms by (cases k) simp_all
qed

lemma roots2coeffs_real:
  "roots2coeffs (ComplexRoots (map complex_of_real xs)) =
     map (\<lambda>i. complex_of_real ((- 1) ^ (i + 1) * esym (i + 1) xs)) [0..<length xs]"
  by (simp add: roots2coeffs_map esym_hom [where h = complex_of_real])

lemma roots2coeffs_real_Im: "\<forall>c \<in> set (roots2coeffs (ComplexRoots (map complex_of_real xs))). Im c = 0"
  by (auto simp: roots2coeffs_real)

lemma roots2coeffs_int_Im: "\<forall>c \<in> set (roots2coeffs (IntRoots ws)). Im c = 0"
proof
  fix c assume "c \<in> set (roots2coeffs (IntRoots ws))"
  then obtain w :: "64 word" where "c = of_int (sint w)"
    unfolding roots2coeffs_int by (auto simp del: of_int_sint)
  then show "Im c = 0" by (simp del: of_int_sint)
qed

lemma make_ccf_not_assert: "make_ccf_system_from_eigenvalues eigvals \<noteq> Inl (AssertionError msg)"
  by (simp add: make_ccf_system_from_eigenvalues_def Let_def)

lemma from_eigenvalues_not_assert:
  "make_random_system_from_eigenvalues np_inv rs cs k g \<noteq> Inl (AssertionError msg)"
  by (simp add: make_random_system_from_eigenvalues_def Let_def split: prod.splits option.splits)

lemma make_random_system_unfold:
  "make_random_system np_inv n p z_min z_max rs cs ccf g =
     (let n_random = n - int (length rs) - 2 * int (length cs)
      in if \<not> n_random > 0 then Inl (AssertionError ''no random eigenvalues'')
         else
           (case drawn_eigenvalues z_min z_max rs cs n_random g of
              (z_real, z_complex, g3) \<Rightarrow>
                if ccf
                then (case make_ccf_system_from_eigenvalues (ComplexRoots (z_complex @ map complex_of_real z_real)) of
                        Inl e \<Rightarrow> Inl e
                      | Inr ab \<Rightarrow> Inr (ab, g3))
                else make_random_system_from_eigenvalues np_inv z_real z_complex 1 g3))"
  by (simp add: make_random_system_def drawn_eigenvalues_def Let_def case_prod_unfold cong: sum.case_cong)

lemma make_random_system_assert:
  "make_random_system np_inv n p z_min z_max rs cs ccf g = Inl (AssertionError msg) \<longleftrightarrow>
     n \<le> int (length rs) + 2 * int (length cs) \<and> msg = ''no random eigenvalues''"
proof (cases "n - int (length rs) - 2 * int (length cs) > 0")
  case False
  then show ?thesis by (auto simp: make_random_system_unfold Let_def)
next
  case True
  obtain zr zc g3 where d: "drawn_eigenvalues z_min z_max rs cs (n - int (length rs) - 2 * int (length cs)) g = (zr, zc, g3)"
    by (cases "drawn_eigenvalues z_min z_max rs cs (n - int (length rs) - 2 * int (length cs)) g") auto
  have "make_random_system np_inv n p z_min z_max rs cs ccf g \<noteq> Inl (AssertionError msg)"
    using True make_ccf_not_assert [of "ComplexRoots (zc @ map complex_of_real zr)" msg]
      from_eigenvalues_not_assert [of np_inv zr zc 1 g3 msg]
    by (auto simp: make_random_system_unfold Let_def d split: sum.splits)
  with True show ?thesis by auto
qed

lemma ncols_is_mat: "is_mat r c m \<Longrightarrow> 0 < r \<Longrightarrow> ncols m = c"
  by (cases m) (auto simp: is_mat_def ncols_def)

lemma length_mat_vec [simp]: "length (mat_vec m v) = length m"
  by (simp add: mat_vec_def)

lemma dot_singleton: "length row = 1 \<Longrightarrow> dot row [u] = row ! 0 * u"
  by (simp add: dot_def)

lemma sequence_map_Inr: "sequence (map (\<lambda>x. Inr (f x)) xs) = Inr (map f xs)"
  by (induction xs) simp_all

lemma bc2_column:
  assumes "is_mat n 1 bm" "0 < n"
  shows "bc2 (*) bm [[u]] = Inr (map (\<lambda>row. [row ! 0 * u]) bm)"
proof -
  have rows: "\<And>row. row \<in> set bm \<Longrightarrow> bc1 (*) row [u] = Inr [row ! 0 * u]"
  proof -
    fix row assume "row \<in> set bm"
    then have "length row = 1" using assms by (simp add: is_mat_def)
    then obtain x where "row = [x]" by (cases row) auto
    then show "bc1 (*) row [u] = Inr [row ! 0 * u]" by (simp add: bc1_def)
  qed
  have all: "map (\<lambda>row. bc1 (*) row [u]) bm = map (\<lambda>row. Inr [row ! 0 * u]) bm"
    using rows by simp
  show ?thesis
  proof (cases "n = 1")
    case True
    then obtain row where bm: "bm = [row]" using assms by (cases bm) (auto simp: is_mat_def)
    then show ?thesis using rows [of row] by (simp add: bc2_def)
  next
    case False
    then have "length bm \<noteq> 1" "length bm \<noteq> length [[u]]" using assms by (auto simp: is_mat_def)
    then show ?thesis by (simp add: bc2_def all sequence_map_Inr)
  qed
qed

lemma trace_step_single_input:
  assumes a: "is_mat n n a" and n: "0 < n" and x: "length x = n" and b: "is_mat n 1 bm"
  shows "trace_step a (Arr2 bm) [u] x = Inr (vec_add (mat_vec a x) (mat_vec bm [u]))"
proof -
  have la: "length a = n" and lb: "length bm = n" using a b by (auto simp: is_mat_def)
  have ax: "matmul_vec a x = Inr (mat_vec a x)"
    using ncols_is_mat [OF a n] x by (simp add: matmul_vec_def)
  have bu: "np_binop (*) (Arr2 bm) (Arr1 [u]) = Inr (Arr2 (map (\<lambda>row. [row ! 0 * u]) bm))"
    by (simp add: bc2_column [OF b n])
  have mv: "mat_vec bm [u] = map (\<lambda>row. row ! 0 * u) bm"
    using b by (auto simp: mat_vec_def is_mat_def dot_singleton)
  show ?thesis
  proof (cases "n = 1")
    case True
    then obtain row where bm: "bm = [row]" using lb by (cases bm) auto
    from True la obtain r where ar: "a = [r]" by (cases a) auto
    have sq: "squeeze (Arr2 (map (\<lambda>row. [row ! 0 * u]) bm)) = Arr0 (row ! 0 * u)"
      by (simp add: bm)
    have m1: "mat_vec a x = [dot r x]" by (simp add: ar mat_vec_def)
    have m2: "mat_vec bm [u] = [row ! 0 * u]" using mv unfolding bm by simp
    have "trace_step a (Arr2 bm) [u] x =
        (case np_binop (+) (Arr1 (mat_vec a x)) (Arr0 (row ! 0 * u)) of
           Inl e \<Rightarrow> Inl e | Inr s \<Rightarrow> setitem_row (length a) s)"
      by (simp add: trace_step_def ax bu sq del: squeeze.simps np_binop.simps)
    then show ?thesis
      by (simp add: m1 m2 la setitem_1d_def vec_add_def True)
  next
    case False
    then have n2: "length bm \<noteq> 1" "bm \<noteq> []" using lb n by auto
    have nc: "ncols (map (\<lambda>row. [row ! 0 * u]) bm) = 1"
      using n2 by (cases bm) (auto simp: ncols_def)
    have sq: "squeeze (Arr2 (map (\<lambda>row. [row ! 0 * u]) bm)) = Arr1 (map (\<lambda>row. row ! 0 * u) bm)"
      using n2 nc by (simp add: comp_def)
    show ?thesis
    proof -
      have "trace_step a (Arr2 bm) [u] x =
        (case np_binop (+) (Arr1 (mat_vec a x)) (Arr1 (map (\<lambda>row. row ! 0 * u) bm)) of
           Inl e \<Rightarrow> Inl e | Inr s \<Rightarrow> setitem_row (length a) s)"
        by (simp add: trace_step_def ax bu sq del: squeeze.simps np_binop.simps)
      then show ?thesis
        by (simp add: bc1_def setitem_1d_def vec_add_def mv la lb)
    qed
  qed
qed

lemma trace_step_single_input_1d:
  assumes a: "is_mat n n a" and n: "0 < n" and x: "length x = n" and b: "length bv = n"
  shows "trace_step a (Arr1 bv) [u] x = Inr (vec_add (mat_vec a x) (mat_vec (map (\<lambda>y. [y]) bv) [u]))"
proof -
  have la: "length a = n" using a by (auto simp: is_mat_def)
  have ax: "matmul_vec a x = Inr (mat_vec a x)"
    using ncols_is_mat [OF a n] x by (simp add: matmul_vec_def)
  have mv: "mat_vec (map (\<lambda>y. [y]) bv) [u] = map (\<lambda>y. y * u) bv"
    by (simp add: mat_vec_def dot_singleton comp_def)
  show ?thesis
  proof (cases "n = 1")
    case True
    then obtain y where bv: "bv = [y]" using b by (cases bv) auto
    from True la obtain r where ar: "a = [r]" by (cases a) auto
    have m1: "mat_vec a x = [dot r x]" by (simp add: ar mat_vec_def)
    have m2: "mat_vec (map (\<lambda>y. [y]) bv) [u] = [y * u]" using mv unfolding bv by simp
    have "trace_step a (Arr1 bv) [u] x =
        (case np_binop (+) (Arr1 (mat_vec a x)) (squeeze (Arr1 [y * u])) of
           Inl e \<Rightarrow> Inl e | Inr s \<Rightarrow> setitem_row (length a) s)"
      by (simp add: trace_step_def ax bv bc1_def del: squeeze.simps np_binop.simps(1-5,7-9))
    then show ?thesis
      by (simp add: m1 m2 la setitem_1d_def vec_add_def True)
  next
    case False
    then have n2: "length bv \<noteq> 1" using b by auto
    show ?thesis
      unfolding trace_step_def ax
      using n2 by (simp add: bc1_def setitem_1d_def vec_add_def mv la b)
  qed
qed

lemma trace_loop_reaches:
  assumes steps: "\<And>i. i < t \<Longrightarrow> trace_step a b (inpt ! i) (X ! i) = Inr (X ! (i + 1))"
    and lx: "length X = t + 1"
  shows "k \<le> t \<Longrightarrow> length st = t + 1 \<Longrightarrow> (\<forall>i \<le> k. st ! i = X ! i) \<Longrightarrow>
         trace_loop a b inpt [k..<t] st = Inr X"
proof (induction "t - k" arbitrary: k st)
  case 0
  then have "k = t" by simp
  with 0 lx have "st = X" by (intro nth_equalityI) auto
  with \<open>k = t\<close> show ?case by simp
next
  case (Suc d)
  then have k: "k < t" by simp
  then have upt: "[k..<t] = k # [Suc k..<t]" by (simp add: upt_rec)
  have stk: "st ! k = X ! k" using Suc.prems by simp
  let ?st = "st[k + 1 := X ! (k + 1)]"
  have inv: "\<forall>i \<le> Suc k. ?st ! i = X ! i"
    using Suc.prems k by (auto simp: nth_list_update le_Suc_eq)
  have "trace_loop a b inpt [Suc k..<t] ?st = Inr X"
    using Suc.hyps(1) [of "Suc k" ?st] Suc.hyps(2) Suc.prems k inv by simp
  then show ?case
    by (simp add: upt stk steps [OF k])
qed

lemma length_recurrence_trace [simp]: "length (recurrence_trace a b x us) = length us + 1"
  by (induction us arbitrary: x) simp_all

lemma recurrence_trace_0 [simp]: "recurrence_trace a b x us ! 0 = x"
  by (cases us) simp_all

lemma recurrence_trace_Suc:
  "i < length us \<Longrightarrow>
   recurrence_trace a b x us ! (i + 1) =
     vec_add (mat_vec a (recurrence_trace a b x us ! i)) (mat_vec b (us ! i))"
proof (induction us arbitrary: x i)
  case Nil
  then show ?case by simp
next
  case (Cons u us)
  show ?case
  proof (cases i)
    case 0
    then show ?thesis by simp
  next
    case (Suc j)
    then show ?thesis using Cons.IH [of j] Cons.prems by simp
  qed
qed

lemma length_vec_add [simp]: "length (vec_add u v) = min (length u) (length v)"
  by (simp add: vec_add_def)

lemma recurrence_trace_rows:
  "length a = n \<Longrightarrow> length b = n \<Longrightarrow> length x = n \<Longrightarrow>
   row \<in> set (recurrence_trace a b x us) \<Longrightarrow> length row = n"
proof (induction us arbitrary: x)
  case Nil
  then show ?case by simp
next
  case (Cons u us)
  have len: "length (vec_add (mat_vec a x) (mat_vec b u)) = n"
    using Cons.prems by simp
  from Cons.prems(4) consider "row = x"
    | "row \<in> set (recurrence_trace a b (vec_add (mat_vec a x) (mat_vec b u)) us)"
    by auto
  then show ?case
  proof cases
    case 1
    then show ?thesis using Cons.prems by simp
  next
    case 2
    show ?thesis by (rule Cons.IH [OF Cons.prems(1,2) len 2])
  qed
qed

lemma make_state_trace_single_input:
  assumes a: "is_mat n n a" and n: "0 < n" and b: "is_mat n 1 bm" and u: "is_mat t 1 inpt"
    and x0: "length x0 = n"
    and init: "initial_state = Some (Arr1 x0) \<or> initial_state = None \<and> x0 = replicate n 0"
  shows "make_state_trace a (Arr2 bm) inpt initial_state = Inr (recurrence_trace a bm x0 inpt)"
proof -
  let ?X = "recurrence_trace a bm x0 inpt"
  have la: "length a = n" and lb: "length bm = n" and lt: "length inpt = t"
    using a b u by (auto simp: is_mat_def)
  have row0: "setitem_row n (case initial_state of Some x0 \<Rightarrow> x0 | None \<Rightarrow> Arr1 (replicate n 0)) = Inr x0"
    using init x0 by (auto simp: setitem_1d_def)
  have steps: "\<And>i. i < t \<Longrightarrow> trace_step a (Arr2 bm) (inpt ! i) (?X ! i) = Inr (?X ! (i + 1))"
  proof -
    fix i assume i: "i < t"
    then have "length (inpt ! i) = 1" using u by (simp add: is_mat_nth)
    then obtain v where v: "inpt ! i = [v]" by (cases "inpt ! i") auto
    have "?X ! i \<in> set ?X" using i lt by (intro nth_mem) simp
    then have lx: "length (?X ! i) = n" using recurrence_trace_rows [OF la lb x0] by blast
    show "trace_step a (Arr2 bm) (inpt ! i) (?X ! i) = Inr (?X ! (i + 1))"
      using trace_step_single_input [OF a n lx b, of v] recurrence_trace_Suc [of i inpt a bm x0] i lt
      by (simp add: v)
  qed
  let ?st = "(replicate (t + 1) (replicate n (0::real)))[0 := x0]"
  have "trace_loop a (Arr2 bm) inpt [0..<t] ?st = Inr ?X"
    by (rule trace_loop_reaches [OF steps]) (simp_all add: lt)
  then show ?thesis
    by (simp add: make_state_trace_def Let_def la lt row0 del: replicate_Suc replicate.simps)
qed

lemma make_state_trace_single_input_1d:
  assumes a: "is_mat n n a" and n: "0 < n" and b: "length bv = n" and u: "is_mat t 1 inpt"
    and x0: "length x0 = n"
    and init: "initial_state = Some (Arr1 x0) \<or> initial_state = None \<and> x0 = replicate n 0"
  shows "make_state_trace a (Arr1 bv) inpt initial_state =
         Inr (recurrence_trace a (map (\<lambda>y. [y]) bv) x0 inpt)"
proof -
  let ?bm = "map (\<lambda>y. [y]) bv"
  let ?X = "recurrence_trace a ?bm x0 inpt"
  have la: "length a = n" and lb: "length ?bm = n" and lt: "length inpt = t"
    using a b u by (auto simp: is_mat_def)
  have row0: "setitem_row n (case initial_state of Some x0 \<Rightarrow> x0 | None \<Rightarrow> Arr1 (replicate n 0)) = Inr x0"
    using init x0 by (auto simp: setitem_1d_def)
  have steps: "\<And>i. i < t \<Longrightarrow> trace_step a (Arr1 bv) (inpt ! i) (?X ! i) = Inr (?X ! (i + 1))"
  proof -
    fix i assume i: "i < t"
    then have "length (inpt ! i) = 1" using u by (simp add: is_mat_nth)
    then obtain v where v: "inpt ! i = [v]" by (cases "inpt ! i") auto
    have "?X ! i \<in> set ?X" using i lt by (intro nth_mem) simp
    then have lx: "length (?X ! i) = n" using recurrence_trace_rows [OF la lb x0] by blast
    show "trace_step a (Arr1 bv) (inpt ! i) (?X ! i) = Inr (?X ! (i + 1))"
      using trace_step_single_input_1d [OF a n lx b, of v] recurrence_trace_Suc [of i inpt a ?bm x0] i lt
      by (simp add: v)
  qed
  let ?st = "(replicate (t + 1) (replicate n (0::real)))[0 := x0]"
  have "trace_loop a (Arr1 bv) inpt [0..<t] ?st = Inr ?X"
    by (rule trace_loop_reaches [OF steps]) (simp_all add: lt)
  then show ?thesis
    by (simp add: make_state_trace_def Let_def la lt row0 del: replicate_Suc replicate.simps)
qed

lemma c2_eval: "make_state_trace [[1, 0], [0, 1]] (Arr2 [[1, 2], [3, 4]]) [[1, 1]] None = Inl ValueError"
  by code_simp

lemma mat_T_transp: "mat_T m = transposed (ncols m) m"
  by (simp add: mat_T_def transposed_def)

lemma length_col [simp]: "length (col m j) = length m"
  by (simp add: col_def)

lemma col_nth [simp]: "i < length m \<Longrightarrow> col m j ! i = m ! i ! j"
  by (simp add: col_def)

lemma is_mat_transp: "is_mat r c m \<Longrightarrow> is_mat c r (transposed c m)"
  by (simp add: is_mat_def transposed_def)

lemma transp_nth: "j < c \<Longrightarrow> transposed c m ! j = col m j"
  by (simp add: transposed_def)

lemma transp_transp: "is_mat r c m \<Longrightarrow> transposed r (transposed c m) = m"
proof (rule nth_equalityI)
  assume m: "is_mat r c m"
  show "length (transposed r (transposed c m)) = length m" using m by (simp add: transposed_def is_mat_def)
  fix i assume "i < length (transposed r (transposed c m))"
  then have i: "i < r" by (simp add: transposed_def)
  have li: "length (m ! i) = c" and lm: "length m = r" using m i by (simp_all add: is_mat_nth)
  show "transposed r (transposed c m) ! i = m ! i"
    using i li lm by (intro nth_equalityI) (simp_all add: transp_nth transposed_def)
qed

lemma dot_append:
  assumes "length x = length a"
  shows "dot (x @ u) (a @ b) = dot x a + dot u b"
proof -
  let ?f = "\<lambda>k. (x @ u) ! k * (a @ b) ! k"
  have "dot (x @ u) (a @ b) = sum ?f {0..<length x + length u}"
    by (simp add: dot_def lessThan_atLeast0)
  also have "\<dots> = sum ?f {0..<length x} + sum ?f {length x..<length x + length u}"
    by (simp add: sum.atLeastLessThan_concat)
  also have "sum ?f {0..<length x} = dot x a"
    using assms by (simp add: dot_def lessThan_atLeast0 nth_append)
  also have "sum ?f {length x..<length x + length u} = sum (\<lambda>k. ?f (k + length x)) {0..<length u}"
    using sum.shift_bounds_nat_ivl [of ?f 0 "length x" "length u"] by (simp add: add.commute)
  also have "\<dots> = dot u b"
    using assms by (simp add: dot_def lessThan_atLeast0 nth_append)
  finally show ?thesis .
qed

lemma dot_commute: "length u = length v \<Longrightarrow> dot u v = dot v u"
  by (simp add: dot_def mult.commute)

lemma col_append: "col (a @ b) j = col a j @ col b j"
  by (simp add: col_def)

lemma mat_mul_nth:
  "i < length a \<Longrightarrow> mat_mul a b ! i = map (\<lambda>j. dot (a ! i) (col b j)) [0..<ncols b]"
  by (simp add: mat_mul_def)

lemma length_mat_mul [simp]: "length (mat_mul a b) = length a"
  by (simp add: mat_mul_def)

text \<open>Row \<open>i\<close> of the product of the regressors with a stacked coefficient block.\<close>

lemma regression_row:
  assumes a: "is_mat n n a" and b: "is_mat p n b" and n: "0 < n"
    and x: "length x = n" and u: "length u = p"
  shows "map (\<lambda>j. dot (x @ u) (col (a @ b) j)) [0..<ncols (a @ b)] =
         vec_add (mat_vec (transposed n a) x) (mat_vec (transposed n b) u)"
proof -
  have la: "length a = n" and lb: "length b = p" using a b by (auto simp: is_mat_def)
  have nc: "ncols (a @ b) = n"
    using a n by (cases a) (auto simp: ncols_def is_mat_def)
  show ?thesis
  proof (rule nth_equalityI)
    show "length (map (\<lambda>j. dot (x @ u) (col (a @ b) j)) [0..<ncols (a @ b)]) =
          length (vec_add (mat_vec (transposed n a) x) (mat_vec (transposed n b) u))"
      by (simp add: nc transposed_def)
  next
    fix j assume "j < length (map (\<lambda>j. dot (x @ u) (col (a @ b) j)) [0..<ncols (a @ b)])"
    then have j: "j < n" by (simp add: nc)
    have "dot (x @ u) (col (a @ b) j) = dot x (col a j) + dot u (col b j)"
      by (simp add: col_append dot_append x la)
    also have "\<dots> = dot (col a j) x + dot (col b j) u"
      by (simp add: dot_commute x u la lb)
    finally show "map (\<lambda>j. dot (x @ u) (col (a @ b) j)) [0..<ncols (a @ b)] ! j =
          vec_add (mat_vec (transposed n a) x) (mat_vec (transposed n b) u) ! j"
      using j by (simp add: nc vec_add_def mat_vec_def transposed_def)
  qed
qed

lemma length_regressors: "length X = t + 1 \<Longrightarrow> length U = t \<Longrightarrow> length (regressors X U) = t"
  by (simp add: regressors_def)

lemma regressors_nth:
  "length X = t + 1 \<Longrightarrow> length U = t \<Longrightarrow> i < t \<Longrightarrow> regressors X U ! i = X ! i @ U ! i"
  by (simp add: regressors_def nth_butlast)

lemma is_mat_regressors:
  "is_mat (t + 1) n X \<Longrightarrow> is_mat t p U \<Longrightarrow> is_mat t (n + p) (regressors X U)"
  by (auto simp: is_mat_nth length_regressors regressors_nth)

lemma product_rows:
  assumes X: "is_mat (t + 1) n X" and U: "is_mat t p U"
    and a: "is_mat n n a" and b: "is_mat p n b" and n: "0 < n"
  shows "mat_mul (regressors X U) (a @ b) =
         map (\<lambda>i. vec_add (mat_vec (transposed n a) (X ! i)) (mat_vec (transposed n b) (U ! i))) [0..<t]"
proof (rule nth_equalityI)
  have lX: "length X = t + 1" and lU: "length U = t" using X U by (auto simp: is_mat_def)
  show "length (mat_mul (regressors X U) (a @ b)) =
        length (map (\<lambda>i. vec_add (mat_vec (transposed n a) (X ! i)) (mat_vec (transposed n b) (U ! i))) [0..<t])"
    by (simp add: length_regressors [OF lX lU])
  fix i assume "i < length (mat_mul (regressors X U) (a @ b))"
  then have i: "i < t" by (simp add: length_regressors [OF lX lU])
  have x: "length (X ! i) = n" and u: "length (U ! i) = p"
    using X U i by (auto simp: is_mat_nth)
  show "mat_mul (regressors X U) (a @ b) ! i =
        map (\<lambda>i. vec_add (mat_vec (transposed n a) (X ! i)) (mat_vec (transposed n b) (U ! i))) [0..<t] ! i"
    using i regression_row [OF a b n x u]
    by (simp add: mat_mul_nth length_regressors [OF lX lU] regressors_nth [OF lX lU])
qed

lemma exact_product:
  assumes X: "is_mat (t + 1) n X" and U: "is_mat t p U"
    and A: "is_mat n n A" and B: "is_mat n p B" and n: "0 < n"
    and ob: "obeys A B U X"
  shows "mat_mul (regressors X U) (transposed n A @ transposed p B) = tl X"
proof -
  have lX: "length X = t + 1" and lU: "length U = t" using X U by (auto simp: is_mat_def)
  have "mat_mul (regressors X U) (transposed n A @ transposed p B) =
        map (\<lambda>i. vec_add (mat_vec A (X ! i)) (mat_vec B (U ! i))) [0..<t]"
    using product_rows [OF X U is_mat_transp [OF A] is_mat_transp [OF B] n]
    by (simp add: transp_transp [OF A] transp_transp [OF B])
  also have "\<dots> = tl X"
    using ob lX lU by (intro nth_equalityI) (auto simp: obeys_def nth_tl)
  finally show ?thesis .
qed

lemma sumsq_nonneg: "0 \<le> sumsq v"
  unfolding sumsq_def by (rule sum_list_nonneg) auto

lemma frob2_nonneg: "0 \<le> frob2 m"
  unfolding frob2_def by (rule sum_list_nonneg) (auto simp: sumsq_nonneg)

lemma residual_nonneg: "0 \<le> residual a b x"
  by (simp add: residual_def frob2_nonneg)

lemma sumsq_zero: "sumsq v = 0 \<Longrightarrow> x \<in> set v \<Longrightarrow> x = 0"
proof -
  assume z: "sumsq v = 0" and x: "x \<in> set v"
  have "\<forall>y \<in> set (map (\<lambda>x. x * x) v). y = 0"
    using z unfolding sumsq_def by (subst (asm) sum_list_nonneg_eq_0_iff) auto
  with x show "x = 0" by auto
qed

lemma frob2_zero: "frob2 m = 0 \<Longrightarrow> row \<in> set m \<Longrightarrow> x \<in> set row \<Longrightarrow> x = 0"
proof -
  assume z: "frob2 m = 0" and r: "row \<in> set m" and x: "x \<in> set row"
  have "\<forall>y \<in> set (map sumsq m). y = 0"
    using z unfolding frob2_def by (subst (asm) sum_list_nonneg_eq_0_iff) (auto simp: sumsq_nonneg)
  with r have "sumsq row = 0" by auto
  then show "x = 0" using x by (rule sumsq_zero)
qed

lemma frob2_sub_zero:
  assumes P: "is_mat t n P" and Y: "is_mat t n Y" and z: "frob2 (mat_sub P Y) = 0"
  shows "P = Y"
proof (rule nth_equalityI)
  show "length P = length Y" using P Y by (simp add: is_mat_def)
  fix i assume "i < length P"
  then have i: "i < t" using P by (simp add: is_mat_def)
  have lp: "length (P ! i) = n" "length (Y ! i) = n" "length P = t" "length Y = t"
    using P Y i by (auto simp: is_mat_nth)
  show "P ! i = Y ! i"
  proof (rule nth_equalityI)
    show "length (P ! i) = length (Y ! i)" using lp by simp
    fix j assume "j < length (P ! i)"
    then have j: "j < n" using lp by simp
    have row: "mat_sub P Y ! i \<in> set (mat_sub P Y)"
      using i lp by (intro nth_mem) (simp add: mat_sub_def)
    have "mat_sub P Y ! i ! j \<in> set (mat_sub P Y ! i)"
      using i j lp by (intro nth_mem) (simp add: mat_sub_def vec_sub_def)
    then have "mat_sub P Y ! i ! j = 0" using frob2_zero [OF z row] by blast
    then show "P ! i ! j = Y ! i ! j"
      using i j lp by (simp add: mat_sub_def vec_sub_def)
  qed
qed

lemma frob2_self: "frob2 (mat_sub Y Y) = 0"
proof -
  have "\<And>row. sumsq (vec_sub row row) = 0"
    by (simp add: sumsq_def vec_sub_def zip_same_conv_map comp_def)
  then show ?thesis
    by (simp add: frob2_def mat_sub_def zip_same_conv_map comp_def)
qed

lemma dot_vec_sub:
  "length row \<le> length v \<Longrightarrow> length row \<le> length w \<Longrightarrow>
   dot row (vec_sub v w) = dot row v - dot row w"
  by (simp add: dot_def vec_sub_def algebra_simps sum_subtractf)

lemma is_mat_mat_mul: "is_mat k c m \<Longrightarrow> 0 < k \<Longrightarrow> is_mat (length d) c (mat_mul d m)"
  by (simp add: is_mat_def mat_mul_def ncols_is_mat [unfolded is_mat_def])

lemma full_col_rank_unique:
  assumes fr: "full_col_rank d k" and d: "is_mat t k d"
    and m: "is_mat k c m" and m': "is_mat k c m'" and k: "0 < k"
    and eq: "mat_mul d m = mat_mul d m'"
  shows "m = m'"
proof -
  have lm: "length m = k" "length m' = k" "length d = t" using m m' d by (auto simp: is_mat_def)
  have nc: "ncols m = c" "ncols m' = c" using ncols_is_mat [OF m k] ncols_is_mat [OF m' k] by auto
  have cols: "col m j = col m' j" if j: "j < c" for j
  proof -
    let ?v = "vec_sub (col m j) (col m' j)"
    have "mat_vec d ?v = replicate (length d) 0"
    proof (rule nth_equalityI)
      show "length (mat_vec d ?v) = length (replicate (length d) (0::real))" by simp
      fix i assume "i < length (mat_vec d ?v)"
      then have i: "i < t" using lm by simp
      have li: "length (d ! i) = k" using d i by (simp add: is_mat_nth)
      have "dot (d ! i) ?v = dot (d ! i) (col m j) - dot (d ! i) (col m' j)"
        by (rule dot_vec_sub) (simp_all add: li lm)
      also have "dot (d ! i) (col m j) = mat_mul d m ! i ! j"
        using i j lm nc by (simp add: mat_mul_nth)
      also have "dot (d ! i) (col m' j) = mat_mul d m' ! i ! j"
        using i j lm nc by (simp add: mat_mul_nth)
      finally show "mat_vec d ?v ! i = replicate (length d) 0 ! i"
        using i lm eq by (simp add: mat_vec_def)
    qed
    moreover have "length ?v = k" by (simp add: vec_sub_def lm)
    ultimately have z: "?v = replicate k 0" using fr by (simp add: full_col_rank_def)
    show ?thesis
    proof (rule nth_equalityI)
      show "length (col m j) = length (col m' j)" by (simp add: lm)
      fix i assume "i < length (col m j)"
      then have i: "i < k" by (simp add: lm)
      have "?v ! i = 0" using z i by simp
      then show "col m j ! i = col m' j ! i" using i lm by (simp add: vec_sub_def)
    qed
  qed
  show ?thesis
  proof (rule nth_equalityI)
    show "length m = length m'" by (simp add: lm)
    fix i assume "i < length m"
    then have i: "i < k" by (simp add: lm)
    have li: "length (m ! i) = c" "length (m' ! i) = c" using m m' i by (auto simp: is_mat_nth)
    show "m ! i = m' ! i"
    proof (rule nth_equalityI)
      show "length (m ! i) = length (m' ! i)" by (simp add: li)
      fix j assume "j < length (m ! i)"
      then have j: "j < c" by (simp add: li)
      have "col m j ! i = col m' j ! i" using cols [OF j] by simp
      then show "m ! i ! j = m' ! i ! j" using i lm by simp
    qed
  qed
qed

lemma identify_system_eq:
  assumes X: "is_mat (t + 1) n X" and U: "is_mat t p U"
  shows "identify_system lstsq X U =
         Inr (take n (lstsq (regressors X U) (tl X)), drop n (lstsq (regressors X U) (tl X)))"
proof -
  have lX: "length X = t + 1" and lU: "length U = t" using X U by (auto simp: is_mat_def)
  then obtain row0 rest where c: "X = row0 # rest" by (cases X) auto
  have "length row0 = n" using X c by (simp add: is_mat_def)
  then show ?thesis using lX lU
    by (auto simp: identify_system_def c regressors_def Let_def)
qed

lemma identify_exact:
  assumes X: "is_mat (t + 1) n X" and U: "is_mat t p U" and n: "0 < n"
    and A: "is_mat n n A" and B: "is_mat n p B" and ob: "obeys A B U X"
    and fr: "full_col_rank (regressors X U) (n + p)"
    and ls: "lstsq_spec (regressors X U) (tl X) (n + p) n (lstsq (regressors X U) (tl X))"
  shows "identify_system lstsq X U = Inr (transposed n A, transposed p B)"
proof -
  let ?D = "regressors X U" and ?Y = "tl X"
  let ?M = "lstsq ?D ?Y" and ?S = "transposed n A @ transposed p B"
  have D: "is_mat t (n + p) ?D" by (rule is_mat_regressors [OF X U])
  have Y: "is_mat t n ?Y" using X by (cases X) (auto simp: is_mat_def)
  have S: "is_mat (n + p) n ?S"
    using is_mat_transp [OF A] is_mat_transp [OF B] by (auto simp: is_mat_def)
  have M: "is_mat (n + p) n ?M" using ls by (simp add: lstsq_spec_def)
  have k: "0 < n + p" using n by simp
  have ex: "mat_mul ?D ?S = ?Y" by (rule exact_product [OF X U A B n ob])
  have "residual ?D ?Y ?M \<le> residual ?D ?Y ?S" using ls S by (simp add: lstsq_spec_def)
  also have "\<dots> = 0" by (simp add: residual_def ex frob2_self)
  finally have "frob2 (mat_sub (mat_mul ?D ?M) ?Y) = 0"
    using residual_nonneg [of ?D ?Y ?M] by (simp add: residual_def)
  moreover have "is_mat t n (mat_mul ?D ?M)"
    using is_mat_mat_mul [OF M k, of ?D] D by (simp add: is_mat_def)
  ultimately have "mat_mul ?D ?M = ?Y" using Y by (intro frob2_sub_zero)
  then have "mat_mul ?D ?M = mat_mul ?D ?S" using ex by simp
  then have eq: "?M = ?S" by (rule full_col_rank_unique [OF fr D M S k])
  have "length (transposed n A) = n" by (simp add: transposed_def)
  then show ?thesis
    by (simp add: identify_system_eq [OF X U] eq)
qed

lemma mat_vec_mat_mul:
  assumes a: "is_mat r t a" and b: "is_mat t k b" and t: "0 < t" and v: "length v = k"
  shows "mat_vec (mat_mul a b) v = mat_vec a (mat_vec b v)"
proof (rule nth_equalityI)
  show "length (mat_vec (mat_mul a b) v) = length (mat_vec a (mat_vec b v))" by simp
  fix i assume "i < length (mat_vec (mat_mul a b) v)"
  then have i: "i < length a" by simp
  have la: "length (a ! i) = t" using a i by (simp add: is_mat_def)
  have lb: "length b = t" and rows: "\<And>l. l < t \<Longrightarrow> length (b ! l) = k"
    using b by (auto simp: is_mat_nth)
  have nc: "ncols b = k" by (rule ncols_is_mat [OF b t])
  have "dot (mat_mul a b ! i) v = (\<Sum>j < k. (\<Sum>l < t. a ! i ! l * b ! l ! j) * v ! j)"
    using i by (simp add: mat_mul_nth nc dot_def la lb)
  also have "\<dots> = (\<Sum>j < k. \<Sum>l < t. a ! i ! l * (b ! l ! j * v ! j))"
    by (simp add: sum_distrib_right mult.assoc)
  also have "\<dots> = (\<Sum>l < t. \<Sum>j < k. a ! i ! l * (b ! l ! j * v ! j))"
    by (rule sum.swap)
  also have "\<dots> = (\<Sum>l < t. a ! i ! l * (\<Sum>j < k. b ! l ! j * v ! j))"
    by (simp add: sum_distrib_left)
  also have "\<dots> = dot (a ! i) (mat_vec b v)"
    using rows by (simp add: dot_def la mat_vec_def lb)
  finally show "mat_vec (mat_mul a b) v ! i = mat_vec a (mat_vec b v) ! i"
    using i by (simp add: mat_vec_def)
qed

lemma mat_vec_identity: "length v = k \<Longrightarrow> mat_vec (identity k) v = v"
proof (rule nth_equalityI)
  assume v: "length v = k"
  show "length (mat_vec (identity k) v) = length v" by (simp add: v identity_def)
  fix i assume "i < length (mat_vec (identity k) v)"
  then have i: "i < k" by (simp add: identity_def)
  have "dot (identity k ! i) v = (\<Sum>j < k. (if i = j then 1 else 0) * v ! j)"
    using i by (simp add: identity_def dot_def)
  also have "\<dots> = (\<Sum>j < k. if j = i then v ! j else 0)"
    by (intro sum.cong) auto
  also have "\<dots> = v ! i" using i by simp
  finally show "mat_vec (identity k) v ! i = v ! i"
    using i by (simp add: mat_vec_def identity_def)
qed

lemma mat_vec_zero: "is_mat r t a \<Longrightarrow> mat_vec a (replicate t 0) = replicate r 0"
  by (intro nth_equalityI) (simp_all add: mat_vec_def dot_def is_mat_nth)

lemma full_col_rank_left_inverse:
  assumes d: "is_mat t k d" and L: "is_mat k t L" and t: "0 < t"
    and inv: "mat_mul L d = identity k"
  shows "full_col_rank d k"
  unfolding full_col_rank_def
proof (intro allI impI)
  fix v assume h: "length v = k \<and> mat_vec d v = replicate (length d) 0"
  have ld: "length d = t" and lL: "length L = k" using d L by (auto simp: is_mat_def)
  have "v = mat_vec (mat_mul L d) v" using h by (simp add: inv mat_vec_identity)
  also have "\<dots> = mat_vec L (mat_vec d v)" using h by (intro mat_vec_mat_mul [OF L d t]) simp
  also have "\<dots> = replicate k 0" using h by (simp add: mat_vec_zero [OF L] ld)
  finally show "v = replicate k 0" .
qed

lemma lstsq_spec_exact:
  assumes d: "is_mat t k d" and x: "is_mat k c x" and k: "0 < k"
    and ex: "mat_mul d x = b" and fr: "full_col_rank d k"
  shows "lstsq_spec d b k c x"
  unfolding lstsq_spec_def
proof (intro conjI allI impI)
  show "is_mat k c x" by (rule x)
  have r0: "residual d b x = 0" by (simp add: residual_def ex frob2_self)
  fix y
  show "residual d b x \<le> residual d b y" if "is_mat k c y"
    by (simp add: r0 residual_nonneg)
  show "frob2 x \<le> frob2 y" if h: "is_mat k c y \<and> residual d b y = residual d b x"
  proof -
    from h r0 have "residual d b y = 0" by simp
    with h have y: "is_mat k c y" and "frob2 (mat_sub (mat_mul d y) b) = 0"
      by (simp_all add: residual_def)
    moreover have "is_mat t c (mat_mul d y)" "is_mat t c b"
      using is_mat_mat_mul [OF y k, of d] is_mat_mat_mul [OF x k, of d] d ex by (auto simp: is_mat_def)
    ultimately have "mat_mul d y = b" by (intro frob2_sub_zero)
    then have "mat_mul d y = mat_mul d x" using ex by simp
    then have "y = x" by (rule full_col_rank_unique [OF fr d y x k])
    then show ?thesis by simp
  qed
qed

lemma sequence_error: "sequence xs = Inl e \<Longrightarrow> Inl e \<in> set xs"
  by (induction xs) (auto split: sum.splits)

lemma bc1_error: "bc1 f u v = Inl e \<Longrightarrow> e = ValueError"
  by (auto simp: bc1_def split: if_splits)

lemma bc1_error_sym: "Inl e = bc1 f u v \<Longrightarrow> e = ValueError"
  by (rule bc1_error [OF sym])

lemma bc2_error: "bc2 f a b = Inl e \<Longrightarrow> e = ValueError"
  by (auto simp: bc2_def in_set_zip split: if_splits dest!: sequence_error dest: bc1_error_sym)

lemma np_binop_error: "np_binop f x y = Inl e \<Longrightarrow> e = ValueError"
  by (cases "(f, x, y)" rule: np_binop.cases)
     (auto simp: map_sum_def split: sum.splits dest: bc1_error bc2_error)

lemma setitem_row_error: "setitem_row n v = Inl e \<Longrightarrow> e = ValueError"
  by (cases v) (auto simp: setitem_1d_def split: if_splits)

lemma trace_step_error: "trace_step a b u x = Inl e \<Longrightarrow> e = ValueError"
  by (auto simp: trace_step_def matmul_vec_def split: sum.splits if_splits
      dest: np_binop_error setitem_row_error)

lemma trace_loop_error: "trace_loop a b inpt is st = Inl e \<Longrightarrow> e = ValueError"
  by (induction "is" arbitrary: st) (auto split: sum.splits dest: trace_step_error)

lemma make_state_trace_error: "make_state_trace a b inpt x0 = Inl e \<Longrightarrow> e = ValueError"
  by (auto simp: make_state_trace_def Let_def split: sum.splits
      dest: trace_loop_error setitem_row_error)

lemma identify_system_error:
  "identify_system lstsq st inpt = Inl e \<Longrightarrow> e = IndexError \<or> e = ValueError"
  by (auto simp: identify_system_def Let_def split: list.splits if_splits)

lemma transform_state_trace_error:
  "transform_state_trace st tm g = Inl e \<Longrightarrow> e = IndexError \<or> e = ValueError"
  by (auto simp: transform_state_trace_def Let_def matmul_def
      split: list.splits if_splits sum.splits prod.splits option.splits)

lemma drawn_eigenvalues_nonempty:
  assumes "0 < k"
  shows "(case drawn_eigenvalues z_min z_max rs cs k g of (zr, zc, _) \<Rightarrow> zc @ map complex_of_real zr) \<noteq> []"
proof -
  have "0 < k div 2 \<or> k mod 2 \<noteq> 0" using assms by presburger
  then show ?thesis
    by (auto simp: drawn_eigenvalues_def Let_def rand_def)
qed

lemma drawn_c9: "drawn_eigenvalues (1 / 2) 1 [] [] 3 (\<lambda>i. 0) = ([1 / 2], [1 / 2], \<lambda>i. 0)"
  by (simp add: drawn_eigenvalues_def Let_def rand_def real_sqrt_divide power2_eq_square)

lemma drawn_c5: "drawn_eigenvalues 0 1 [] [\<i> / 2] 1 (\<lambda>i. 0) = ([0], [\<i> / 2], \<lambda>i. 0)"
  by (simp add: drawn_eigenvalues_def Let_def rand_def)

lemma residual_fit:
  assumes X: "is_mat (t + 1) n X" and U: "is_mat t p U"
    and a: "is_mat n n a" and b: "is_mat p n b" and n: "0 < n"
  shows "residual (regressors X U) (tl X) (a @ b) = fit_error (transposed n a) (transposed n b) U X"
proof -
  have lX: "length X = t + 1" and lU: "length U = t" using X U by (auto simp: is_mat_def)
  let ?f = "\<lambda>i. vec_add (mat_vec (transposed n a) (X ! i)) (mat_vec (transposed n b) (U ! i))"
  have "mat_sub (mat_mul (regressors X U) (a @ b)) (tl X) =
        map (\<lambda>i. vec_sub (?f i) (X ! (i + 1))) [0..<t]"
    unfolding product_rows [OF X U a b n]
    using lX by (intro nth_equalityI) (simp_all add: mat_sub_def nth_tl)
  then have "residual (regressors X U) (tl X) (a @ b) =
        sum_list (map (\<lambda>i. sumsq (vec_sub (?f i) (X ! (i + 1)))) [0..<t])"
    by (simp add: residual_def frob2_def comp_def)
  also have "\<dots> = (\<Sum>i < t. sumsq (vec_sub (?f i) (X ! (i + 1))))"
    by (simp add: interv_sum_list_conv_sum_set_nat lessThan_atLeast0)
  finally show ?thesis by (simp add: fit_error_def lU)
qed

lemma is_mat_take_drop:
  "is_mat (n + p) c m \<Longrightarrow> is_mat n c (take n m) \<and> is_mat p c (drop n m)"
  by (auto simp: is_mat_def dest: in_set_takeD in_set_dropD)

lemma identify_system_blocks:
  assumes X: "is_mat (t + 1) n X" and U: "is_mat t p U"
    and ls: "lstsq_spec (regressors X U) (tl X) (n + p) n (lstsq (regressors X U) (tl X))"
  shows "\<exists>a b. identify_system lstsq X U = Inr (a, b) \<and> is_mat n n a \<and> is_mat p n b \<and>
           a @ b = lstsq (regressors X U) (tl X)"
proof -
  let ?M = "lstsq (regressors X U) (tl X)"
  have "is_mat (n + p) n ?M" using ls by (simp add: lstsq_spec_def)
  then have "is_mat n n (take n ?M)" "is_mat p n (drop n ?M)"
    using is_mat_take_drop by blast+
  then show ?thesis by (simp add: identify_system_eq [OF X U])
qed

lemma example_trace: "make_state_trace a_known b_known u_trace None = Inr x_trace"
  unfolding a_known_def b_known_def u_trace_def x_trace_def by code_simp

lemma example_shapes:
  "is_mat 2 2 a_known" "is_mat 2 1 [[0], [1 :: real]]" "is_mat 3 1 u_trace" "is_mat (3 + 1) 2 x_trace"
  by (simp_all add: is_mat_def a_known_def u_trace_def x_trace_def)

lemma example_regressors: "regressors x_trace u_trace = [[0, 0, 1], [0, 1, 2], [1, 11 / 5, - 1]]"
  by (simp add: regressors_def x_trace_def u_trace_def)

lemma example_full_rank: "full_col_rank (regressors x_trace u_trace) (2 + 1)"
proof -
  have d: "is_mat 3 3 (regressors x_trace u_trace)"
    by (simp add: example_regressors is_mat_def)
  have L: "is_mat 3 3 [[27 / 5, - (11 / 5), 1], [- 2, 1, 0], [1, 0, 0 :: real]]"
    by (simp add: is_mat_def)
  have "mat_mul [[27 / 5, - (11 / 5), 1], [- 2, 1, 0], [1, 0, 0]] (regressors x_trace u_trace) = identity 3"
    unfolding example_regressors by code_simp
  from full_col_rank_left_inverse [OF d L _ this] show ?thesis by simp
qed

lemma example_lstsq:
  "exact_lstsq (regressors x_trace u_trace) (tl x_trace) = [[0, 3 / 10], [1, 1 / 5], [0, 1]]"
  unfolding example_regressors x_trace_def by code_simp

lemma example_lstsq_spec:
  "lstsq_spec (regressors x_trace u_trace) (tl x_trace) (2 + 1) 2
     (exact_lstsq (regressors x_trace u_trace) (tl x_trace))"
proof -
  have d: "is_mat 3 (2 + 1) (regressors x_trace u_trace)"
    by (simp add: example_regressors is_mat_def)
  have x: "is_mat (2 + 1) 2 [[0, 3 / 10], [1, 1 / 5], [0, 1 :: real]]"
    by (simp add: is_mat_def)
  have ex: "mat_mul (regressors x_trace u_trace) [[0, 3 / 10], [1, 1 / 5], [0, 1]] = tl x_trace"
    unfolding example_regressors x_trace_def by code_simp
  show ?thesis
    unfolding example_lstsq
    by (rule lstsq_spec_exact [OF d x _ ex example_full_rank]) simp
qed

lemma example_identified:
  "identify_system exact_lstsq x_trace u_trace = Inr ([[0, 3 / 10], [1, 1 / 5]], [[0, 1]])"
  using identify_system_eq [OF example_shapes(4) example_shapes(3), of exact_lstsq]
  by (simp add: example_lstsq)

lemma recurrence_trace_obeys: "obeys a b us (recurrence_trace a b x us)"
  using recurrence_trace_Suc [of _ us a b x] by (simp add: obeys_def)

lemma is_mat_recurrence_trace:
  "length a = n \<Longrightarrow> length b = n \<Longrightarrow> length x = n \<Longrightarrow>
   is_mat (length us + 1) n (recurrence_trace a b x us)"
  unfolding is_mat_def using recurrence_trace_rows [of a n b x] by auto

lemma column_matrix: "is_mat n 1 B \<Longrightarrow> map (\<lambda>y. [y]) (col B 0) = B"
proof (rule nth_equalityI)
  assume B: "is_mat n 1 B"
  show "length (map (\<lambda>y. [y]) (col B 0)) = length B" by simp
  fix i assume "i < length (map (\<lambda>y. [y]) (col B 0))"
  then have i: "i < length B" by simp
  then have "length (B ! i) = 1" using B by (simp add: is_mat_def)
  then obtain y where "B ! i = [y]" by (cases "B ! i") auto
  then show "map (\<lambda>y. [y]) (col B 0) ! i = B ! i" using i by simp
qed

lemma make_state_trace_recurrence:
  assumes A: "is_mat n n A" and n: "0 < n" and B: "is_mat n 1 B" and U: "is_mat t 1 U"
    and x0: "length x0 = n"
    and init: "initial_state = Some (Arr1 x0) \<or> initial_state = None \<and> x0 = replicate n 0"
    and bm: "b_matrix = Arr2 B \<or> b_matrix = Arr1 (col B 0)"
  shows "make_state_trace A b_matrix U initial_state = Inr (recurrence_trace A B x0 U)"
  using bm
proof
  assume "b_matrix = Arr2 B"
  then show ?thesis using make_state_trace_single_input [OF A n B U x0 init] by simp
next
  assume b1: "b_matrix = Arr1 (col B 0)"
  have "length (col B 0) = n" using B by (simp add: is_mat_def)
  from make_state_trace_single_input_1d [OF A n this U x0 init] show ?thesis
    by (simp add: b1 column_matrix [OF B])
qed

lemma mat_T_rows:
  assumes T: "is_mat n n tm" and n: "0 < n" and j: "j < n"
  shows "col (mat_T tm) j = tm ! j"
proof (rule nth_equalityI)
  have nc: "ncols tm = n" by (rule ncols_is_mat [OF T n])
  have lj: "length (tm ! j) = n" and lt: "length tm = n" using T j by (auto simp: is_mat_nth)
  show "length (col (mat_T tm) j) = length (tm ! j)" by (simp add: mat_T_def nc lj)
  fix k assume "k < length (col (mat_T tm) j)"
  then have k: "k < n" by (simp add: mat_T_def nc)
  then show "col (mat_T tm) j ! k = tm ! j ! k"
    using j lt by (simp add: mat_T_def nc)
qed

lemma transform_rows:
  assumes X: "is_mat (t + 1) n X" and T: "is_mat n n tm" and n: "0 < n"
  shows "transform_state_trace X (Some tm) g = Inr (map (mat_vec tm) X, g)"
proof -
  have lX: "length X = t + 1" using X by (simp add: is_mat_def)
  then obtain row0 rest where c: "X = row0 # rest" by (cases X) auto
  have nc: "ncols tm = n" by (rule ncols_is_mat [OF T n])
  have lt: "length tm = n" using T by (simp add: is_mat_def)
  have ncT: "ncols (mat_T tm) = n"
    using ncols_is_mat [OF is_mat_transp [OF T] n] by (simp add: mat_T_transp nc)
  have ncX: "ncols X = n" using X by (intro ncols_is_mat [OF X]) simp
  have ok: "matmul X (mat_T tm) = Inr (mat_mul X (mat_T tm))"
    by (simp add: matmul_def ncX mat_T_def nc)
  have eq: "mat_mul X (mat_T tm) = map (mat_vec tm) X"
  proof (rule nth_equalityI)
    show "length (mat_mul X (mat_T tm)) = length (map (mat_vec tm) X)" by simp
    fix i assume "i < length (mat_mul X (mat_T tm))"
    then have i: "i < length X" by simp
    then have lx: "length (X ! i) = n" using X by (simp add: is_mat_def)
    have "map (\<lambda>j. dot (X ! i) (col (mat_T tm) j)) [0..<n] = map (\<lambda>j. dot (tm ! j) (X ! i)) [0..<n]"
    proof (rule map_cong [OF refl])
      fix j assume "j \<in> set [0..<n]"
      then have j: "j < n" by simp
      then have "length (tm ! j) = n" using T by (simp add: is_mat_nth)
      then show "dot (X ! i) (col (mat_T tm) j) = dot (tm ! j) (X ! i)"
        by (simp add: mat_T_rows [OF T n j] dot_commute lx)
    qed
    also have "\<dots> = mat_vec tm (X ! i)"
      by (intro nth_equalityI) (simp_all add: mat_vec_def lt)
    finally show "mat_mul X (mat_T tm) ! i = map (mat_vec tm) X ! i"
      using i by (simp add: mat_mul_nth ncT)
  qed
  show ?thesis
    using ok eq lX by (cases X) (simp_all add: transform_state_trace_def)
qed

lemma mat_vec_add:
  "is_mat r c m \<Longrightarrow> length v = c \<Longrightarrow> length w = c \<Longrightarrow>
   mat_vec m (vec_add v w) = vec_add (mat_vec m v) (mat_vec m w)"
  by (intro nth_equalityI)
     (simp_all add: mat_vec_def vec_add_def dot_def is_mat_nth algebra_simps sum.distrib)

lemma mat_vec_nth: "i < length m \<Longrightarrow> mat_vec m v ! i = dot (m ! i) v"
  by (simp add: mat_vec_def)

lemma length_mat_vec_is_mat: "is_mat r c m \<Longrightarrow> length (mat_vec m v) = r"
  by (simp add: is_mat_def)

lemma is_mat_mat_mul2: "is_mat r k a \<Longrightarrow> is_mat k c b \<Longrightarrow> 0 < k \<Longrightarrow> is_mat r c (mat_mul a b)"
  using is_mat_mat_mul [of k c b a] by (simp add: is_mat_def)

text \<open>The transformed trace obeys the recurrence of the transformed system.\<close>

lemma transformed_obeys:
  assumes A: "is_mat n n A" and B: "is_mat n p B" and T: "is_mat n n tm" and Ti: "is_mat n n ti"
    and n: "0 < n" and inv: "mat_mul ti tm = identity n"
    and X: "is_mat (t + 1) n X" and U: "is_mat t p U" and ob: "obeys A B U X"
  shows "obeys (mat_mul (mat_mul tm A) ti) (mat_mul tm B) U (map (mat_vec tm) X)"
  unfolding obeys_def
proof (intro conjI allI impI)
  have lX: "length X = t + 1" and lU: "length U = t" using X U by (auto simp: is_mat_def)
  show "length (map (mat_vec tm) X) = length U + 1" by (simp add: lX lU)
  fix i assume "i < length U"
  then have i: "i < t" by (simp add: lU)
  have x: "length (X ! i) = n" and u: "length (U ! i) = p"
    using X U i by (auto simp: is_mat_nth)
  have TA: "is_mat n n (mat_mul tm A)" by (rule is_mat_mat_mul2 [OF T A n])
  have lAx: "length (mat_vec A (X ! i)) = n" and lBu: "length (mat_vec B (U ! i)) = n"
    and lTx: "length (mat_vec tm (X ! i)) = n"
    using A B T by (simp_all add: is_mat_def)
  have "mat_vec (mat_mul (mat_mul tm A) ti) (mat_vec tm (X ! i)) =
        mat_vec (mat_mul tm A) (mat_vec ti (mat_vec tm (X ! i)))"
    by (rule mat_vec_mat_mul [OF TA Ti n lTx])
  also have "mat_vec ti (mat_vec tm (X ! i)) = mat_vec (mat_mul ti tm) (X ! i)"
    by (rule mat_vec_mat_mul [OF Ti T n x, symmetric])
  also have "\<dots> = X ! i" by (simp add: inv mat_vec_identity x)
  also have "mat_vec (mat_mul tm A) (X ! i) = mat_vec tm (mat_vec A (X ! i))"
    by (rule mat_vec_mat_mul [OF T A n x])
  finally have 1: "mat_vec (mat_mul (mat_mul tm A) ti) (mat_vec tm (X ! i)) =
        mat_vec tm (mat_vec A (X ! i))" .
  have 2: "mat_vec (mat_mul tm B) (U ! i) = mat_vec tm (mat_vec B (U ! i))"
    by (rule mat_vec_mat_mul [OF T B n u])
  have "map (mat_vec tm) X ! (i + 1) = mat_vec tm (X ! (i + 1))"
    using i lX by simp
  also have "\<dots> = mat_vec tm (vec_add (mat_vec A (X ! i)) (mat_vec B (U ! i)))"
    using ob i lU by (simp add: obeys_def)
  also have "\<dots> = vec_add (mat_vec tm (mat_vec A (X ! i))) (mat_vec tm (mat_vec B (U ! i)))"
    by (rule mat_vec_add [OF T lAx lBu])
  finally show "map (mat_vec tm) X ! (i + 1) =
      vec_add (mat_vec (mat_mul (mat_mul tm A) ti) (map (mat_vec tm) X ! i))
        (mat_vec (mat_mul tm B) (U ! i))"
    using i lX by (simp add: 1 2)
qed

lemma dot_adjoint:
  assumes T: "is_mat r c m" and x: "length x = c" and v: "length v = r"
  shows "dot (mat_vec m x) v = dot x (mat_vec (transposed c m) v)"
proof -
  have lm: "length m = r" and rows: "\<And>i. i < r \<Longrightarrow> length (m ! i) = c"
    using T by (auto simp: is_mat_nth)
  have "dot (mat_vec m x) v = (\<Sum>i < r. (\<Sum>j < c. m ! i ! j * x ! j) * v ! i)"
    by (simp add: dot_def mat_vec_def lm rows)
  also have "\<dots> = (\<Sum>i < r. \<Sum>j < c. x ! j * (m ! i ! j * v ! i))"
    unfolding sum_distrib_right by (intro sum.cong refl) (simp add: mult_ac)
  also have "\<dots> = (\<Sum>j < c. \<Sum>i < r. x ! j * (m ! i ! j * v ! i))"
    by (rule sum.swap)
  also have "\<dots> = (\<Sum>j < c. x ! j * (\<Sum>i < r. m ! i ! j * v ! i))"
    by (simp add: sum_distrib_left)
  also have "\<dots> = dot x (mat_vec (transposed c m) v)"
    by (simp add: dot_def x mat_vec_def transposed_def lm)
  finally show ?thesis .
qed

lemma replicate_append_zero: "replicate (n + p) (0::'a::zero) = replicate n 0 @ replicate p 0"
  by (simp add: replicate_add)

lemma transformed_full_col_rank:
  assumes T: "is_mat n n tm" and Ti: "is_mat n n ti" and n: "0 < n"
    and inv: "mat_mul tm ti = identity n"
    and X: "is_mat (t + 1) n X" and U: "is_mat t p U"
    and fr: "full_col_rank (regressors X U) (n + p)"
  shows "full_col_rank (regressors (map (mat_vec tm) X) U) (n + p)"
  unfolding full_col_rank_def
proof (intro allI impI)
  fix v :: "real list"
  let ?Z = "map (mat_vec tm) X"
  assume h: "length v = n + p \<and> mat_vec (regressors ?Z U) v = replicate (length (regressors ?Z U)) 0"
  have lX: "length X = t + 1" and lU: "length U = t" using X U by (auto simp: is_mat_def)
  have lZ: "length ?Z = t + 1" by (simp add: lX)
  let ?v1 = "take n v" and ?v2 = "drop n v"
  have v: "v = ?v1 @ ?v2" and l1: "length ?v1 = n" and l2: "length ?v2 = p" using h by auto
  let ?w1 = "mat_vec (transposed n tm) ?v1"
  have lw1: "length ?w1 = n" by (simp add: transposed_def)
  have rows: "dot (regressors X U ! i) (?w1 @ ?v2) = 0" if i: "i < t" for i
  proof -
    have x: "length (X ! i) = n" and u: "length (U ! i) = p"
      using X U i by (auto simp: is_mat_nth)
    have lTx: "length (mat_vec tm (X ! i)) = n" using T by (simp add: is_mat_def)
    have "dot (regressors ?Z U ! i) v = 0"
    proof -
      have "mat_vec (regressors ?Z U) v ! i = 0"
        using h i by (simp add: length_regressors [OF lZ lU])
      then show ?thesis using i by (simp add: mat_vec_def length_regressors [OF lZ lU])
    qed
    then have "dot (mat_vec tm (X ! i) @ U ! i) v = 0"
      using i lX by (simp add: regressors_nth [OF lZ lU i])
    moreover have "dot (mat_vec tm (X ! i) @ U ! i) (?v1 @ ?v2) =
        dot (mat_vec tm (X ! i)) ?v1 + dot (U ! i) ?v2"
      by (rule dot_append) (simp only: lTx l1)
    ultimately have "dot (mat_vec tm (X ! i)) ?v1 + dot (U ! i) ?v2 = 0"
      by simp
    then have "dot (X ! i) ?w1 + dot (U ! i) ?v2 = 0"
      by (simp add: dot_adjoint [OF T x l1])
    moreover have "dot (X ! i @ U ! i) (?w1 @ ?v2) = dot (X ! i) ?w1 + dot (U ! i) ?v2"
      by (rule dot_append) (simp only: x lw1)
    ultimately show ?thesis
      by (simp only: regressors_nth [OF lX lU i])
  qed
  have "mat_vec (regressors X U) (?w1 @ ?v2) = replicate (length (regressors X U)) 0"
    by (intro nth_equalityI) (simp_all add: mat_vec_nth rows length_regressors [OF lX lU])
  moreover have "length (?w1 @ ?v2) = n + p" using lw1 l2 by (simp only: length_append)
  ultimately have z: "?w1 @ ?v2 = replicate (n + p) 0"
    using fr by (simp add: full_col_rank_def)
  then have "?w1 @ ?v2 = replicate n 0 @ replicate p 0"
    by (simp only: replicate_append_zero)
  moreover have "length ?w1 = length (replicate n (0::real))" by (simp only: lw1 length_replicate)
  ultimately have "?w1 = replicate n 0 \<and> ?v2 = replicate p 0"
    by (metis append_eq_append_conv)
  then have z1: "?w1 = replicate n 0" and z2: "?v2 = replicate p 0" by blast+
  have tT: "is_mat n n (transposed n tm)" and tTi: "is_mat n n (transposed n ti)"
    using is_mat_transp [OF T] is_mat_transp [OF Ti] by auto
  have "?v1 = replicate n 0"
  proof (rule nth_equalityI)
    show "length ?v1 = length (replicate n (0::real))" by (simp only: l1 length_replicate)
    fix k assume "k < length ?v1"
    then have k: "k < n" by (simp only: l1)
    let ?e = "identity n ! k :: real list"
    have le: "length ?e = n" using k by (simp add: identity_def)
    have lie: "length (mat_vec ti ?e) = n" using Ti by (simp add: is_mat_def)
    have "?v1 ! k = dot ?e ?v1"
    proof -
      have "dot ?e ?v1 = (\<Sum>j < n. (if k = j then 1 else 0) * ?v1 ! j)"
        using k by (simp add: dot_def identity_def)
      also have "\<dots> = (\<Sum>j < n. if j = k then ?v1 ! j else 0)"
        by (intro sum.cong) auto
      also have "\<dots> = ?v1 ! k" using k by simp
      finally show ?thesis by simp
    qed
    also have "?e = mat_vec (mat_mul tm ti) ?e"
      by (simp add: inv mat_vec_identity le)
    also have "\<dots> = mat_vec tm (mat_vec ti ?e)"
      by (rule mat_vec_mat_mul [OF T Ti n le])
    also have "dot (mat_vec tm (mat_vec ti ?e)) ?v1 = dot (mat_vec ti ?e) ?w1"
      by (rule dot_adjoint [OF T lie l1])
    also have "\<dots> = 0" unfolding z1 dot_def lie by simp
    finally show "?v1 ! k = replicate n 0 ! k" using k by simp
  qed
  with z2 have "?v1 @ ?v2 = replicate n 0 @ replicate p 0" by simp
  with v show "v = replicate (n + p) 0" by (simp add: replicate_append_zero)
qed

lemma dependent_vectors:
  fixes v :: "'i \<Rightarrow> nat \<Rightarrow> 'a::field"
  shows "finite S \<Longrightarrow> n < card S \<Longrightarrow>
         \<exists>c. (\<exists>i \<in> S. c i \<noteq> 0) \<and> (\<forall>k < n. (\<Sum>i \<in> S. c i * v i k) = 0)"
proof (induction n arbitrary: S v)
  case 0
  then have "S \<noteq> {}" by auto
  then obtain i where "i \<in> S" by blast
  then show ?case by (intro exI [of _ "\<lambda>_. 1"]) auto
next
  case (Suc n)
  show ?case
  proof (cases "\<forall>i \<in> S. v i n = 0")
    case True
    from Suc.prems have "n < card S" by simp
    from Suc.IH [OF Suc.prems(1) this, of v] obtain c where
      c: "\<exists>i \<in> S. c i \<noteq> 0" "\<And>k. k < n \<Longrightarrow> (\<Sum>i \<in> S. c i * v i k) = 0"
      by blast
    have "(\<Sum>i \<in> S. c i * v i k) = 0" if "k < Suc n" for k
    proof (cases "k = n")
      case True
      then show ?thesis using \<open>\<forall>i \<in> S. v i n = 0\<close> by simp
    next
      case False
      with that have "k < n" by simp
      then show ?thesis by (rule c(2))
    qed
    with c(1) show ?thesis by blast
  next
    case False
    then obtain p where p: "p \<in> S" "v p n \<noteq> 0" by blast
    let ?S = "S - {p}"
    let ?w = "\<lambda>i k. v i k - (v i n / v p n) * v p k"
    have fin: "finite ?S" and card: "n < card ?S"
      using Suc.prems p by auto
    from Suc.IH [OF fin card, of ?w] obtain d where
      d: "\<exists>i \<in> ?S. d i \<noteq> 0" "\<And>k. k < n \<Longrightarrow> (\<Sum>i \<in> ?S. d i * ?w i k) = 0"
      by blast
    let ?s = "\<Sum>i \<in> ?S. d i * v i n"
    let ?c = "\<lambda>i. if i = p then - ?s / v p n else d i"
    have split: "(\<Sum>i \<in> S. ?c i * v i k) = - ?s / v p n * v p k + (\<Sum>i \<in> ?S. d i * v i k)" for k
    proof -
      have "(\<Sum>i \<in> S. ?c i * v i k) = ?c p * v p k + (\<Sum>i \<in> ?S. ?c i * v i k)"
        using Suc.prems(1) p(1) by (rule sum.remove)
      also have "(\<Sum>i \<in> ?S. ?c i * v i k) = (\<Sum>i \<in> ?S. d i * v i k)"
        by (intro sum.cong) auto
      finally show ?thesis by simp
    qed
    have nz: "\<exists>i \<in> S. ?c i \<noteq> 0" using d(1) by auto
    have zero: "(\<Sum>i \<in> S. ?c i * v i k) = 0" if k: "k < Suc n" for k
    proof (cases "k = n")
      case True
      then show ?thesis using p(2) by (simp only: split) simp
    next
      case False
      with k have "k < n" by simp
      have "(\<Sum>i \<in> ?S. d i * ?w i k) =
          (\<Sum>i \<in> ?S. d i * v i k) - (\<Sum>i \<in> ?S. d i * (v i n / v p n) * v p k)"
        by (simp only: right_diff_distrib sum_subtractf mult.assoc)
      with d(2) [OF \<open>k < n\<close>]
      have "(\<Sum>i \<in> ?S. d i * v i k) - (\<Sum>i \<in> ?S. d i * (v i n / v p n) * v p k) = 0"
        by simp
      moreover have "(\<Sum>i \<in> ?S. d i * (v i n / v p n) * v p k) = ?s / v p n * v p k"
        by (simp only: sum_distrib_right sum_divide_distrib times_divide_eq_right)
      ultimately show ?thesis by (simp only: split) simp
    qed
    show ?thesis
    proof (intro exI [of _ ?c] conjI allI impI)
      show "\<exists>i \<in> S. ?c i \<noteq> 0" by (rule nz)
      fix k assume "k < Suc n"
      then show "(\<Sum>i \<in> S. ?c i * v i k) = 0" by (rule zero)
    qed
  qed
qed

lemma sum_norm_square_nonzero:
  fixes w :: "nat \<Rightarrow> complex"
  assumes "i < n" "w i \<noteq> 0"
  shows "(\<Sum>k < n. w k * cnj (w k)) \<noteq> 0"
proof -
  have eq: "(\<Sum>k < n. w k * cnj (w k)) = complex_of_real (\<Sum>k < n. (cmod (w k))\<^sup>2)"
    by (simp only: of_real_sum complex_norm_square)
  have "0 < (\<Sum>k < n. (cmod (w k))\<^sup>2)"
  proof (rule sum_pos2 [of _ i])
    show "finite {..<n}" by simp
    show "i \<in> {..<n}" using assms by simp
    show "0 < (cmod (w i))\<^sup>2" using assms by simp
  qed simp
  then have "complex_of_real (\<Sum>k < n. (cmod (w k))\<^sup>2) \<noteq> 0"
    by (simp only: of_real_eq_0_iff)
  then show ?thesis unfolding eq .
qed

lemma singular_transpose_imp:
  assumes "singular (\<lambda>i j. N j i) n"
  shows "singular N n"
proof -
  from assms obtain w i0 where w: "i0 < n" "w i0 \<noteq> 0"
    and left: "\<And>j. j < n \<Longrightarrow> (\<Sum>i < n. N i j * w i) = 0"
    by (auto simp: singular_def)
  let ?u = "\<lambda>j k. if j < n then N k j else cnj (w k)"
  have "finite {..n}" "n < card {..n}" by simp_all
  from dependent_vectors [OF this, of ?u] obtain c where
    c: "\<exists>j \<in> {..n}. c j \<noteq> 0" "\<And>k. k < n \<Longrightarrow> (\<Sum>j \<in> {..n}. c j * ?u j k) = 0"
    by blast
  have row: "(\<Sum>j < n. N k j * c j) + c n * cnj (w k) = 0" if k: "k < n" for k
  proof -
    have "(\<Sum>j \<in> {..n}. c j * ?u j k) = (\<Sum>j < n. c j * ?u j k) + c n * ?u n k"
      by (simp add: lessThan_Suc_atMost [symmetric])
    also have "(\<Sum>j < n. c j * ?u j k) = (\<Sum>j < n. N k j * c j)"
      by (intro sum.cong) (auto simp: mult.commute)
    finally show ?thesis using c(2) [OF k] by simp
  qed
  have "(\<Sum>k < n. w k * ((\<Sum>j < n. N k j * c j) + c n * cnj (w k))) = 0"
    using row by simp
  moreover have "(\<Sum>k < n. w k * ((\<Sum>j < n. N k j * c j) + c n * cnj (w k))) =
      (\<Sum>k < n. \<Sum>j < n. w k * (N k j * c j)) + (\<Sum>k < n. w k * (c n * cnj (w k)))"
    by (simp only: distrib_left sum.distrib sum_distrib_left)
  moreover have "(\<Sum>k < n. w k * (c n * cnj (w k))) = c n * (\<Sum>k < n. w k * cnj (w k))"
    unfolding sum_distrib_left by (intro sum.cong refl) (simp only: mult.left_commute)
  ultimately have "(\<Sum>k < n. \<Sum>j < n. w k * (N k j * c j)) + c n * (\<Sum>k < n. w k * cnj (w k)) = 0"
    by simp
  moreover have "(\<Sum>k < n. \<Sum>j < n. w k * (N k j * c j)) = (\<Sum>j < n. c j * (\<Sum>k < n. N k j * w k))"
    unfolding sum_distrib_left by (subst sum.swap) (intro sum.cong refl, simp only: mult_ac)
  moreover have "\<dots> = 0" using left by simp
  ultimately have "c n * (\<Sum>k < n. w k * cnj (w k)) = 0" by simp
  then have cn: "c n = 0" using sum_norm_square_nonzero [of i0 n w, OF w] by simp
  from c(1) obtain j where "j \<le> n" "c j \<noteq> 0" by auto
  with cn have j: "j < n" "c j \<noteq> 0" by (auto simp: le_less)
  have "\<forall>k < n. (\<Sum>j < n. N k j * c j) = 0" using row cn by simp
  with j show ?thesis by (auto simp: singular_def)
qed

lemma singular_transpose: "singular (\<lambda>i j. N j i) n \<longleftrightarrow> singular N n"
  using singular_transpose_imp [of N n] singular_transpose_imp [of "\<lambda>i j. N j i" n] by auto

lemma is_mat_cmat: "is_mat r c m \<Longrightarrow> is_mat r c (cmat m)"
  by (simp add: is_mat_def cmat_def)

lemma cmat_nth: "is_mat r c m \<Longrightarrow> i < r \<Longrightarrow> j < c \<Longrightarrow> cmat m ! i ! j = complex_of_real (m ! i ! j)"
  by (simp add: cmat_def is_mat_nth)

lemma ncols_cmat [simp]: "ncols (cmat m) = ncols m"
  by (cases m) (simp_all add: ncols_def cmat_def)

lemma cmat_mat_mul:
  assumes a: "is_mat r k a" and b: "is_mat k c b" and k: "0 < k"
  shows "cmat (mat_mul a b) = mat_mul (cmat a) (cmat b)"
proof (rule nth_equalityI)
  show "length (cmat (mat_mul a b)) = length (mat_mul (cmat a) (cmat b))"
    by (simp add: cmat_def)
  fix i assume "i < length (cmat (mat_mul a b))"
  then have i: "i < r" using a by (simp add: cmat_def is_mat_def)
  have la: "length a = r" "length (a ! i) = k" and lb: "length b = k"
    and rows: "\<And>l. l < k \<Longrightarrow> length (b ! l) = c"
    using a b i by (auto simp: is_mat_nth)
  have nc: "ncols b = c" by (rule ncols_is_mat [OF b k])
  have ab: "is_mat r c (mat_mul a b)" by (rule is_mat_mat_mul2 [OF a b k])
  show "cmat (mat_mul a b) ! i = mat_mul (cmat a) (cmat b) ! i"
  proof (rule nth_equalityI)
    have li: "i < length (cmat a)" using i la by (simp add: cmat_def)
    show "length (cmat (mat_mul a b) ! i) = length (mat_mul (cmat a) (cmat b) ! i)"
      using i la li by (simp add: mat_mul_nth) (simp add: cmat_def mat_mul_nth)
    fix j assume "j < length (cmat (mat_mul a b) ! i)"
    then have j: "j < c" using i la by (simp add: cmat_def mat_mul_nth nc)
    have "cmat (mat_mul a b) ! i ! j = complex_of_real (\<Sum>l < k. a ! i ! l * b ! l ! j)"
      using i j la lb by (simp add: cmat_nth [OF ab] mat_mul_nth nc dot_def)
    also have "\<dots> = (\<Sum>l < k. cmat a ! i ! l * cmat b ! l ! j)"
      using i j by (simp add: cmat_nth [OF a] cmat_nth [OF b])
    also have "\<dots> = mat_mul (cmat a) (cmat b) ! i ! j"
      using i j la lb li by (simp add: mat_mul_nth nc dot_def) (simp add: cmat_def)
    finally show "cmat (mat_mul a b) ! i ! j = mat_mul (cmat a) (cmat b) ! i ! j" .
  qed
qed

lemma cmat_identity: "cmat (identity n) = identity n"
  by (simp add: cmat_def identity_def comp_def if_distrib cong: if_cong)

lemma mat_vec_scale:
  "is_mat r c m \<Longrightarrow> length v = c \<Longrightarrow> mat_vec m (map ((*) z) v) = map ((*) z) (mat_vec m v)"
  by (intro nth_equalityI)
     (simp_all add: mat_vec_def dot_def is_mat_nth sum_distrib_left mult_ac)

lemma conjugate_apply:
  assumes A: "is_mat n n A" and T: "is_mat n n tm" and Ti: "is_mat n n ti" and n: "0 < n"
    and inv: "mat_mul ti tm = identity n" and x: "length x = n"
  shows "mat_vec (mat_mul (mat_mul tm A) ti) (mat_vec tm x) = mat_vec tm (mat_vec A x)"
proof -
  have TA: "is_mat n n (mat_mul tm A)" by (rule is_mat_mat_mul2 [OF T A n])
  have lTx: "length (mat_vec tm x) = n" using T by (simp add: is_mat_def)
  have "mat_vec (mat_mul (mat_mul tm A) ti) (mat_vec tm x) =
        mat_vec (mat_mul tm A) (mat_vec ti (mat_vec tm x))"
    by (rule mat_vec_mat_mul [OF TA Ti n lTx])
  also have "mat_vec ti (mat_vec tm x) = mat_vec (mat_mul ti tm) x"
    by (rule mat_vec_mat_mul [OF Ti T n x, symmetric])
  also have "\<dots> = x" by (simp add: inv mat_vec_identity x)
  also have "mat_vec (mat_mul tm A) x = mat_vec tm (mat_vec A x)"
    by (rule mat_vec_mat_mul [OF T A n x])
  finally show ?thesis .
qed

lemma cancel_apply:
  assumes T: "is_mat n n tm" and Ti: "is_mat n n ti" and n: "0 < n"
    and inv: "mat_mul ti tm = identity n" and x: "length x = n"
  shows "mat_vec ti (mat_vec tm x) = x"
proof -
  have "mat_vec ti (mat_vec tm x) = mat_vec (mat_mul ti tm) x"
    by (rule mat_vec_mat_mul [OF Ti T n x, symmetric])
  also have "\<dots> = x" by (simp add: inv mat_vec_identity x)
  finally show ?thesis .
qed

lemma eigenvalue_similar:
  assumes M: "is_mat n n M" and T: "is_mat n n tm" and Ti: "is_mat n n ti" and n: "0 < n"
    and inv1: "mat_mul tm ti = identity n" and inv2: "mat_mul ti tm = identity n"
  shows "eigenvalue (mat_mul (mat_mul tm M) ti) z \<longleftrightarrow> eigenvalue M z"
proof -
  let ?N = "mat_mul (mat_mul tm M) ti"
  have TM: "is_mat n n (mat_mul tm M)" by (rule is_mat_mat_mul2 [OF T M n])
  have N: "is_mat n n ?N" by (rule is_mat_mat_mul2 [OF TM Ti n])
  have lM: "length M = n" and lN: "length ?N = n" using M N by (auto simp: is_mat_def)
  note cM = is_mat_cmat [OF M] and cT = is_mat_cmat [OF T] and cTi = is_mat_cmat [OF Ti]
  have cN: "cmat ?N = mat_mul (mat_mul (cmat tm) (cmat M)) (cmat ti)"
    by (simp add: cmat_mat_mul [OF TM Ti n] cmat_mat_mul [OF T M n])
  have ci1: "mat_mul (cmat tm) (cmat ti) = identity n"
    using cmat_mat_mul [OF T Ti n] by (simp add: inv1 cmat_identity)
  have ci2: "mat_mul (cmat ti) (cmat tm) = identity n"
    using cmat_mat_mul [OF Ti T n] by (simp add: inv2 cmat_identity)
  have z0: "mat_vec m (replicate n 0) = replicate n (0::complex)" if "is_mat n n m" for m
    by (rule mat_vec_zero [OF that])
  show ?thesis
  proof
    assume "eigenvalue M z"
    then obtain v where v: "length v = n" "v \<noteq> replicate n 0"
      "mat_vec (cmat M) v = map ((*) z) v"
      unfolding eigenvalue_def lM by blast
    let ?w = "mat_vec (cmat tm) v"
    have lw: "length ?w = n" using T by (simp add: is_mat_def cmat_def)
    have "mat_vec (cmat ?N) ?w = mat_vec (cmat tm) (mat_vec (cmat M) v)"
      unfolding cN by (rule conjugate_apply [OF cM cT cTi n ci2 v(1)])
    also have "\<dots> = map ((*) z) ?w"
      by (simp add: v(3) mat_vec_scale [OF cT v(1)])
    finally have e: "mat_vec (cmat ?N) ?w = map ((*) z) ?w" .
    have "?w \<noteq> replicate n 0"
    proof
      assume "?w = replicate n 0"
      then have "mat_vec (cmat ti) ?w = replicate n 0" by (simp add: z0 [OF cTi])
      then show False using cancel_apply [OF cT cTi n ci2 v(1)] v(2) by simp
    qed
    with lw e show "eigenvalue ?N z" unfolding eigenvalue_def lN by blast
  next
    assume "eigenvalue ?N z"
    then obtain w where w: "length w = n" "w \<noteq> replicate n 0"
      "mat_vec (cmat ?N) w = map ((*) z) w"
      unfolding eigenvalue_def lN by blast
    let ?v = "mat_vec (cmat ti) w"
    have lv: "length ?v = n" using Ti by (simp add: is_mat_def cmat_def)
    have lMv: "length (mat_vec (cmat M) ?v) = n" using M by (simp add: is_mat_def cmat_def)
    have wv: "mat_vec (cmat tm) ?v = w" by (rule cancel_apply [OF cTi cT n ci1 w(1)])
    have "mat_vec (cmat ?N) (mat_vec (cmat tm) ?v) = mat_vec (cmat tm) (mat_vec (cmat M) ?v)"
      unfolding cN by (rule conjugate_apply [OF cM cT cTi n ci2 lv])
    then have "mat_vec (cmat tm) (mat_vec (cmat M) ?v) = map ((*) z) w"
      by (simp add: wv w(3))
    then have "mat_vec (cmat ti) (mat_vec (cmat tm) (mat_vec (cmat M) ?v)) = map ((*) z) ?v"
      by (simp add: mat_vec_scale [OF cTi w(1)])
    then have e: "mat_vec (cmat M) ?v = map ((*) z) ?v"
      by (simp add: cancel_apply [OF cT cTi n ci2 lMv])
    have "?v \<noteq> replicate n 0"
    proof
      assume "?v = replicate n 0"
      then have "mat_vec (cmat tm) ?v = replicate n 0" by (simp add: z0 [OF cT])
      then show False using wv w(2) by simp
    qed
    with lv e show "eigenvalue M z" unfolding eigenvalue_def lM by blast
  qed
qed

lemma singular_cong:
  "(\<And>i j. i < n \<Longrightarrow> j < n \<Longrightarrow> N i j = N' i j) \<Longrightarrow> singular N n \<longleftrightarrow> singular N' n"
  by (simp add: singular_def)

lemma eigenvalue_singular:
  assumes m: "is_mat n n m"
  shows "eigenvalue m z \<longleftrightarrow>
         singular (\<lambda>i j. complex_of_real (m ! i ! j) - (if i = j then z else 0)) n"
proof -
  let ?N = "\<lambda>i j. complex_of_real (m ! i ! j) - (if i = j then z else 0)"
  have lm: "length m = n" using m by (simp add: is_mat_def)
  have lc: "length (cmat m) = n" by (simp add: cmat_def lm)
  have rowlen: "\<And>i. i < n \<Longrightarrow> length (cmat m ! i) = n"
    using is_mat_cmat [OF m] by (simp add: is_mat_nth)
  have row: "(\<Sum>j < n. ?N i j * f j) = dot (cmat m ! i) (map f [0..<n]) - z * f i"
    if i: "i < n" for i and f :: "nat \<Rightarrow> complex"
  proof -
    have "(\<Sum>j < n. ?N i j * f j) =
          (\<Sum>j < n. complex_of_real (m ! i ! j) * f j) - (\<Sum>j < n. (if i = j then z else 0) * f j)"
      by (simp only: left_diff_distrib sum_subtractf)
    also have "(\<Sum>j < n. (if i = j then z else 0) * f j) = (\<Sum>j < n. if j = i then z * f j else 0)"
      by (intro sum.cong) auto
    also have "\<dots> = z * f i" using i by simp
    also have "(\<Sum>j < n. complex_of_real (m ! i ! j) * f j) = dot (cmat m ! i) (map f [0..<n])"
      using i by (simp add: dot_def rowlen cmat_nth [OF m])
    finally show ?thesis .
  qed
  show ?thesis
  proof
    assume "eigenvalue m z"
    then obtain v where v: "length v = n" "v \<noteq> replicate n 0"
      "mat_vec (cmat m) v = map ((*) z) v"
      unfolding eigenvalue_def lm by blast
    have vf: "map (\<lambda>j. v ! j) [0..<n] = v" using map_nth [of v] v(1) by simp
    from v(1,2) obtain j where j: "j < n" "v ! j \<noteq> 0"
      by (auto simp: list_eq_iff_nth_eq)
    have "(\<Sum>j < n. ?N i j * v ! j) = 0" if i: "i < n" for i
    proof -
      have "dot (cmat m ! i) v = mat_vec (cmat m) v ! i" using i lc by (simp add: mat_vec_nth)
      also have "\<dots> = z * v ! i" using i v(1) by (simp add: v(3))
      finally show ?thesis using row [OF i, of "\<lambda>j. v ! j"] by (simp add: vf)
    qed
    with j show "singular ?N n" unfolding singular_def by blast
  next
    assume "singular ?N n"
    then obtain f j where j: "j < n" "f j \<noteq> 0"
      and z: "\<And>i. i < n \<Longrightarrow> (\<Sum>j < n. ?N i j * f j) = 0"
      unfolding singular_def by blast
    let ?v = "map f [0..<n]"
    have lv: "length ?v = n" by simp
    have nz: "?v \<noteq> replicate n 0"
    proof
      assume "?v = replicate n 0"
      then have "?v ! j = replicate n 0 ! j" by simp
      then show False using j by simp
    qed
    have "mat_vec (cmat m) ?v = map ((*) z) ?v"
    proof (rule nth_equalityI)
      show "length (mat_vec (cmat m) ?v) = length (map ((*) z) ?v)" by (simp add: lc)
      fix i assume "i < length (mat_vec (cmat m) ?v)"
      then have i: "i < n" by (simp add: lc)
      have "dot (cmat m ! i) ?v = z * f i" using z [OF i] row [OF i, of f] by simp
      then show "mat_vec (cmat m) ?v ! i = map ((*) z) ?v ! i"
        using i lc by (simp add: mat_vec_nth)
    qed
    with lv nz show "eigenvalue m z" unfolding eigenvalue_def lm by blast
  qed
qed

lemma eigenvalue_transp:
  assumes m: "is_mat n n m"
  shows "eigenvalue (transposed n m) z \<longleftrightarrow> eigenvalue m z"
proof -
  let ?N = "\<lambda>i j. complex_of_real (m ! i ! j) - (if i = j then z else 0)"
  have lm: "length m = n" using m by (simp add: is_mat_def)
  have "eigenvalue (transposed n m) z \<longleftrightarrow>
        singular (\<lambda>i j. complex_of_real (transposed n m ! i ! j) - (if i = j then z else 0)) n"
    by (rule eigenvalue_singular [OF is_mat_transp [OF m]])
  also have "\<dots> \<longleftrightarrow> singular (\<lambda>i j. ?N j i) n"
    by (rule singular_cong) (auto simp: transp_nth lm)
  also have "\<dots> \<longleftrightarrow> singular ?N n" by (rule singular_transpose)
  also have "\<dots> \<longleftrightarrow> eigenvalue m z" by (rule eigenvalue_singular [OF m, symmetric])
  finally show ?thesis .
qed

lemma mat_eqI:
  assumes "is_mat r c a" "is_mat r c b" "\<And>i j. i < r \<Longrightarrow> j < c \<Longrightarrow> a ! i ! j = b ! i ! j"
  shows "a = b"
proof (rule nth_equalityI)
  show "length a = length b" using assms by (simp add: is_mat_def)
  fix i assume "i < length a"
  then have i: "i < r" using assms by (simp add: is_mat_def)
  then have "length (a ! i) = c" "length (b ! i) = c" using assms by (auto simp: is_mat_nth)
  then show "a ! i = b ! i" using assms(3) [OF i] by (intro nth_equalityI) simp_all
qed

lemma mat_mul_entry:
  assumes a: "is_mat r k a" and b: "is_mat k c b" and k: "0 < k" and i: "i < r" and j: "j < c"
  shows "mat_mul a b ! i ! j = (\<Sum>l < k. a ! i ! l * b ! l ! j)"
proof -
  have "length a = r" "length (a ! i) = k" "length b = k" using a b i by (auto simp: is_mat_nth)
  then show ?thesis using i j by (simp add: mat_mul_nth ncols_is_mat [OF b k] dot_def)
qed

lemma is_mat_identity: "is_mat n n (identity n)"
  by (simp add: is_mat_def identity_def)

lemma identity_entry: "i < n \<Longrightarrow> j < n \<Longrightarrow> identity n ! i ! j = (if i = j then 1 else 0)"
  by (simp add: identity_def)

lemma mat_mul_assoc:
  assumes a: "is_mat r k a" and b: "is_mat k l b" and d: "is_mat l c d" and k: "0 < k" and l: "0 < l"
  shows "mat_mul (mat_mul a b) d = mat_mul a (mat_mul b d)"
proof (rule mat_eqI)
  have ab: "is_mat r l (mat_mul a b)" by (rule is_mat_mat_mul2 [OF a b k])
  have bd: "is_mat k c (mat_mul b d)" by (rule is_mat_mat_mul2 [OF b d l])
  show "is_mat r c (mat_mul (mat_mul a b) d)" by (rule is_mat_mat_mul2 [OF ab d l])
  show "is_mat r c (mat_mul a (mat_mul b d))" by (rule is_mat_mat_mul2 [OF a bd k])
  fix i j assume i: "i < r" and j: "j < c"
  have "mat_mul (mat_mul a b) d ! i ! j = (\<Sum>q < l. (\<Sum>p < k. a ! i ! p * b ! p ! q) * d ! q ! j)"
    by (simp add: mat_mul_entry [OF ab d l i j] mat_mul_entry [OF a b k i])
  also have "\<dots> = (\<Sum>q < l. \<Sum>p < k. a ! i ! p * (b ! p ! q * d ! q ! j))"
    by (simp only: sum_distrib_right mult.assoc)
  also have "\<dots> = (\<Sum>p < k. \<Sum>q < l. a ! i ! p * (b ! p ! q * d ! q ! j))"
    by (rule sum.swap)
  also have "\<dots> = (\<Sum>p < k. a ! i ! p * (\<Sum>q < l. b ! p ! q * d ! q ! j))"
    by (simp only: sum_distrib_left)
  also have "\<dots> = mat_mul a (mat_mul b d) ! i ! j"
    by (simp add: mat_mul_entry [OF a bd k i j] mat_mul_entry [OF b d l _ j])
  finally show "mat_mul (mat_mul a b) d ! i ! j = mat_mul a (mat_mul b d) ! i ! j" .
qed

lemma mat_mul_identity_right:
  assumes a: "is_mat r n a" and n: "0 < n"
  shows "mat_mul a (identity n) = a"
proof (rule mat_eqI)
  show "is_mat r n (mat_mul a (identity n))" by (rule is_mat_mat_mul2 [OF a is_mat_identity n])
  show "is_mat r n a" by (rule a)
  fix i j assume i: "i < r" and j: "j < n"
  have "mat_mul a (identity n) ! i ! j = (\<Sum>l < n. a ! i ! l * (if l = j then 1 else 0))"
    by (simp add: mat_mul_entry [OF a is_mat_identity n i j] identity_entry j)
  also have "\<dots> = (\<Sum>l < n. if l = j then a ! i ! l else 0)"
    by (intro sum.cong) auto
  also have "\<dots> = a ! i ! j" using j by simp
  finally show "mat_mul a (identity n) ! i ! j = a ! i ! j" .
qed

lemma mat_mul_identity_left:
  assumes a: "is_mat n c a" and n: "0 < n"
  shows "mat_mul (identity n) a = a"
proof (rule mat_eqI)
  show "is_mat n c (mat_mul (identity n) a)" by (rule is_mat_mat_mul2 [OF is_mat_identity a n])
  show "is_mat n c a" by (rule a)
  fix i j assume i: "i < n" and j: "j < c"
  have "mat_mul (identity n) a ! i ! j = (\<Sum>l < n. (if i = l then 1 else 0) * a ! l ! j)"
    by (simp add: mat_mul_entry [OF is_mat_identity a n i j] identity_entry i)
  also have "\<dots> = (\<Sum>l < n. if l = i then a ! l ! j else 0)"
    by (intro sum.cong) auto
  also have "\<dots> = a ! i ! j" using i by simp
  finally show "mat_mul (identity n) a ! i ! j = a ! i ! j" .
qed

lemma trace_commute:
  assumes a: "is_mat n n a" and b: "is_mat n n b" and n: "0 < n"
  shows "trace (mat_mul a b) = trace (mat_mul b a)"
proof -
  have "trace (mat_mul a b) = (\<Sum>i < n. \<Sum>l < n. a ! i ! l * b ! l ! i)"
    using a by (simp add: trace_def is_mat_def mat_mul_entry [OF a b n])
  also have "\<dots> = (\<Sum>l < n. \<Sum>i < n. a ! i ! l * b ! l ! i)" by (rule sum.swap)
  also have "\<dots> = (\<Sum>l < n. \<Sum>i < n. b ! l ! i * a ! i ! l)" by (simp only: mult.commute)
  also have "\<dots> = trace (mat_mul b a)"
    using b by (simp add: trace_def is_mat_def mat_mul_entry [OF b a n])
  finally show ?thesis .
qed

lemma transp_entry: "is_mat r c m \<Longrightarrow> i < c \<Longrightarrow> j < r \<Longrightarrow> transposed c m ! i ! j = m ! j ! i"
  by (simp add: transp_nth is_mat_def)

lemma trace_transp: "is_mat n n m \<Longrightarrow> trace (transposed n m) = trace m"
  by (simp add: trace_def transposed_def is_mat_def)

lemma transp_mat_mul:
  assumes a: "is_mat n n a" and b: "is_mat n n b" and n: "0 < n"
  shows "transposed n (mat_mul a b) = mat_mul (transposed n b) (transposed n a)"
proof (rule mat_eqI)
  have ab: "is_mat n n (mat_mul a b)" by (rule is_mat_mat_mul2 [OF a b n])
  note ta = is_mat_transp [OF a] and tb = is_mat_transp [OF b]
  show "is_mat n n (transposed n (mat_mul a b))" by (rule is_mat_transp [OF ab])
  show "is_mat n n (mat_mul (transposed n b) (transposed n a))" by (rule is_mat_mat_mul2 [OF tb ta n])
  fix i j assume i: "i < n" and j: "j < n"
  have "transposed n (mat_mul a b) ! i ! j = (\<Sum>l < n. a ! j ! l * b ! l ! i)"
    by (simp add: transp_entry [OF ab i j] mat_mul_entry [OF a b n j i])
  also have "\<dots> = (\<Sum>l < n. transposed n b ! i ! l * transposed n a ! l ! j)"
    by (intro sum.cong refl) (simp add: transp_entry [OF b i] transp_entry [OF a _ j] mult.commute)
  also have "\<dots> = mat_mul (transposed n b) (transposed n a) ! i ! j"
    by (simp add: mat_mul_entry [OF tb ta n i j])
  finally show "transposed n (mat_mul a b) ! i ! j = mat_mul (transposed n b) (transposed n a) ! i ! j" .
qed

lemma is_mat_mat_pow: "is_mat n n m \<Longrightarrow> 0 < n \<Longrightarrow> is_mat n n (mat_pow m k)"
proof (induction k)
  case 0
  then show ?case by (simp add: is_mat_identity is_mat_def [of n n m])
next
  case (Suc k)
  then show ?case by (simp add: is_mat_mat_mul2)
qed

lemma mat_pow_commute:
  assumes m: "is_mat n n m" and n: "0 < n"
  shows "mat_mul (mat_pow m k) m = mat_mul m (mat_pow m k)"
proof (induction k)
  case 0
  have "length m = n" using m by (simp add: is_mat_def)
  then show ?case by (simp add: mat_mul_identity_left [OF m n] mat_mul_identity_right [OF m n])
next
  case (Suc k)
  note p = is_mat_mat_pow [OF m n, of k]
  have "mat_mul (mat_pow m (Suc k)) m = mat_mul m (mat_mul (mat_pow m k) m)"
    by (simp add: mat_mul_assoc [OF m p m n n])
  then show ?case by (simp add: Suc)
qed

lemma mat_pow_transp:
  assumes m: "is_mat n n m" and n: "0 < n"
  shows "mat_pow (transposed n m) k = transposed n (mat_pow m k)"
proof (induction k)
  case 0
  have "transposed n (identity n) = (identity n :: mat)"
    by (rule mat_eqI [OF is_mat_transp [OF is_mat_identity] is_mat_identity])
       (auto simp: transp_entry [OF is_mat_identity] identity_entry)
  moreover have "length m = n" "length (transposed n m) = n" using m by (simp_all add: is_mat_def transposed_def)
  ultimately show ?case by simp
next
  case (Suc k)
  note p = is_mat_mat_pow [OF m n, of k]
  have "mat_pow (transposed n m) (Suc k) = mat_mul (transposed n m) (transposed n (mat_pow m k))"
    by (simp add: Suc)
  also have "\<dots> = transposed n (mat_mul (mat_pow m k) m)"
    by (rule transp_mat_mul [OF p m n, symmetric])
  also have "\<dots> = transposed n (mat_pow m (Suc k))"
    by (simp add: mat_pow_commute [OF m n])
  finally show ?case .
qed

lemma mat_pow_similar:
  assumes A: "is_mat n n A" and T: "is_mat n n tm" and Ti: "is_mat n n ti" and n: "0 < n"
    and inv1: "mat_mul tm ti = identity n" and inv2: "mat_mul ti tm = identity n"
  shows "mat_pow (mat_mul (mat_mul tm A) ti) k = mat_mul (mat_mul tm (mat_pow A k)) ti"
proof (induction k)
  case 0
  have "length A = n" "length (mat_mul (mat_mul tm A) ti) = n" using A T by (simp_all add: is_mat_def)
  then show ?case by (simp add: mat_mul_identity_right [OF T n] inv1)
next
  case (Suc k)
  note p = is_mat_mat_pow [OF A n, of k]
  note TA = is_mat_mat_mul2 [OF T A n] and TP = is_mat_mat_mul2 [OF T p n]
  note AP = is_mat_mat_mul2 [OF A p n]
  note TPTi = is_mat_mat_mul2 [OF TP Ti n]
  note TiTPTi = is_mat_mat_mul2 [OF Ti TPTi n]
  have "mat_mul (mat_mul (mat_mul tm A) ti) (mat_mul (mat_mul tm (mat_pow A k)) ti) =
        mat_mul (mat_mul tm A) (mat_mul ti (mat_mul (mat_mul tm (mat_pow A k)) ti))"
    by (rule mat_mul_assoc [OF TA Ti TPTi n n])
  also have "mat_mul ti (mat_mul (mat_mul tm (mat_pow A k)) ti) =
        mat_mul (mat_mul ti (mat_mul tm (mat_pow A k))) ti"
    by (rule mat_mul_assoc [OF Ti TP Ti n n, symmetric])
  also have "mat_mul ti (mat_mul tm (mat_pow A k)) = mat_mul (mat_mul ti tm) (mat_pow A k)"
    by (rule mat_mul_assoc [OF Ti T p n n, symmetric])
  also have "\<dots> = mat_pow A k" by (simp add: inv2 mat_mul_identity_left [OF p n])
  also have "mat_mul (mat_mul tm A) (mat_mul (mat_pow A k) ti) =
        mat_mul (mat_mul (mat_mul tm A) (mat_pow A k)) ti"
    by (rule mat_mul_assoc [OF TA p Ti n n, symmetric])
  also have "mat_mul (mat_mul tm A) (mat_pow A k) = mat_mul tm (mat_mul A (mat_pow A k))"
    by (rule mat_mul_assoc [OF T A p n n])
  finally show ?case by (simp add: Suc)
qed

lemma trace_similar:
  assumes P: "is_mat n n P" and T: "is_mat n n tm" and Ti: "is_mat n n ti" and n: "0 < n"
    and inv2: "mat_mul ti tm = identity n"
  shows "trace (mat_mul (mat_mul tm P) ti) = trace P"
proof -
  note TP = is_mat_mat_mul2 [OF T P n]
  have "trace (mat_mul (mat_mul tm P) ti) = trace (mat_mul ti (mat_mul tm P))"
    by (rule trace_commute [OF TP Ti n])
  also have "mat_mul ti (mat_mul tm P) = mat_mul (mat_mul ti tm) P"
    by (rule mat_mul_assoc [OF Ti T P n n, symmetric])
  also have "\<dots> = P" by (simp add: inv2 mat_mul_identity_left [OF P n])
  finally show ?thesis .
qed

lemma trace_pow_transformed:
  assumes A: "is_mat n n A" and T: "is_mat n n tm" and Ti: "is_mat n n ti" and n: "0 < n"
    and inv1: "mat_mul tm ti = identity n" and inv2: "mat_mul ti tm = identity n"
  shows "trace (mat_pow (transposed n (mat_mul (mat_mul tm A) ti)) k) = trace (mat_pow A k)"
proof -
  let ?N = "mat_mul (mat_mul tm A) ti"
  have N: "is_mat n n ?N" by (rule is_mat_mat_mul2 [OF is_mat_mat_mul2 [OF T A n] Ti n])
  note p = is_mat_mat_pow [OF A n, of k]
  have "trace (mat_pow (transposed n ?N) k) = trace (transposed n (mat_pow ?N k))"
    by (simp add: mat_pow_transp [OF N n])
  also have "\<dots> = trace (mat_pow ?N k)"
    by (rule trace_transp [OF is_mat_mat_pow [OF N n]])
  also have "\<dots> = trace (mat_mul (mat_mul tm (mat_pow A k)) ti)"
    by (simp add: mat_pow_similar [OF A T Ti n inv1 inv2])
  also have "\<dots> = trace (mat_pow A k)"
    by (rule trace_similar [OF p T Ti n inv2])
  finally show ?thesis .
qed

lemma example_transformed:
  "transform_state_trace x_trace (Some t_mat_known) (\<lambda>i. 0) = Inr (tx_trace, \<lambda>i. 0)"
proof -
  have "is_mat 2 2 t_mat_known" by (simp add: is_mat_def t_mat_known_def)
  from transform_rows [OF example_shapes(4) this, of "\<lambda>i. 0"]
  have "transform_state_trace x_trace (Some t_mat_known) (\<lambda>i. 0) =
        Inr (map (mat_vec t_mat_known) x_trace, \<lambda>i. 0)"
    by simp
  moreover have "map (mat_vec t_mat_known) x_trace = tx_trace"
    unfolding t_mat_known_def x_trace_def tx_trace_def by code_simp
  ultimately show ?thesis by simp
qed

lemma example_t_inverse:
  "is_mat 2 2 t_mat_known" "is_mat 2 2 [[2, - 1], [- 5, 3 :: real]]"
  "mat_mul t_mat_known [[2, - 1], [- 5, 3]] = identity 2"
  "mat_mul [[2, - 1], [- 5, 3]] t_mat_known = identity 2"
proof -
  show "is_mat 2 2 t_mat_known" "is_mat 2 2 [[2, - 1], [- 5, 3 :: real]]"
    by (simp_all add: is_mat_def t_mat_known_def)
  show "mat_mul t_mat_known [[2, - 1], [- 5, 3]] = identity 2"
    unfolding t_mat_known_def by code_simp
  show "mat_mul [[2, - 1], [- 5, 3]] t_mat_known = identity 2"
    unfolding t_mat_known_def by code_simp
qed

lemma example_obeys: "obeys a_known [[0], [1]] u_trace x_trace"
proof -
  have "make_state_trace a_known b_known u_trace None =
        Inr (recurrence_trace a_known [[0], [1]] (replicate 2 0) u_trace)"
    by (rule make_state_trace_recurrence [OF example_shapes(1) _ example_shapes(2) example_shapes(3)])
       (simp_all add: b_known_def col_def)
  then have "x_trace = recurrence_trace a_known [[0], [1]] (replicate 2 0) u_trace"
    by (simp add: example_trace)
  then show ?thesis by (metis recurrence_trace_obeys)
qed

lemma example_transformed_full_rank: "full_col_rank (regressors tx_trace u_trace) (2 + 1)"
proof -
  have "full_col_rank (regressors (map (mat_vec t_mat_known) x_trace) u_trace) (2 + 1)"
    by (rule transformed_full_col_rank [OF example_t_inverse(1,2) _ example_t_inverse(3)
          example_shapes(4) example_shapes(3) example_full_rank]) simp
  moreover have "map (mat_vec t_mat_known) x_trace = tx_trace"
    unfolding t_mat_known_def x_trace_def tx_trace_def by code_simp
  ultimately show ?thesis by simp
qed

lemma example_transformed_lstsq:
  "exact_lstsq (regressors tx_trace u_trace) (tl tx_trace) =
     [[- (77 / 5), - (129 / 5)], [93 / 10, 78 / 5], [1, 2]]"
  unfolding tx_trace_def u_trace_def regressors_def by code_simp

lemma example_transformed_lstsq_spec:
  "lstsq_spec (regressors tx_trace u_trace) (tl tx_trace) (2 + 1) 2
     (exact_lstsq (regressors tx_trace u_trace) (tl tx_trace))"
proof -
  have d: "is_mat 3 (2 + 1) (regressors tx_trace u_trace)"
    by (simp add: regressors_def tx_trace_def u_trace_def is_mat_def)
  have x: "is_mat (2 + 1) 2 [[- (77 / 5), - (129 / 5)], [93 / 10, 78 / 5], [1, 2 :: real]]"
    by (simp add: is_mat_def)
  have ex: "mat_mul (regressors tx_trace u_trace)
      [[- (77 / 5), - (129 / 5)], [93 / 10, 78 / 5], [1, 2]] = tl tx_trace"
    unfolding tx_trace_def u_trace_def regressors_def by code_simp
  show ?thesis
    unfolding example_transformed_lstsq
    by (rule lstsq_spec_exact [OF d x _ ex example_transformed_full_rank]) simp
qed

lemma example_transformed_identified:
  "identify_system exact_lstsq tx_trace u_trace =
     Inr ([[- (77 / 5), - (129 / 5)], [93 / 10, 78 / 5]], [[1, 2]])"
proof -
  have "is_mat (3 + 1) 2 tx_trace" by (simp add: is_mat_def tx_trace_def)
  from identify_system_eq [OF this example_shapes(3), of exact_lstsq]
  show ?thesis by (simp add: example_transformed_lstsq)
qed

subsection \<open>Further facts about the multi-input and random-system paths\<close>

lemma sequence_map_Inl:
  "xs \<noteq> [] \<Longrightarrow> (\<And>x. x \<in> set xs \<Longrightarrow> f x = Inl e) \<Longrightarrow> sequence (map f xs) = Inl e"
  by (cases xs) simp_all

text \<open>
  With two or more inputs the product \<^verbatim>\<open>b_matrix * inpt[i]\<close> either does not broadcast or is an
  \<open>n \<times> n\<close> array, which cannot be stored in the row \<^verbatim>\<open>state_trace[i + 1]\<close>: the first step of
  the loop already raises \<^verbatim>\<open>ValueError\<close>.
\<close>

lemma trace_step_multi_input:
  assumes a: "is_mat n n a" and n: "0 < n" and x: "length x = n"
    and b: "is_mat n p bm" and p: "2 \<le> p" and u: "length u = p"
  shows "trace_step a (Arr2 bm) u x = Inl ValueError"
proof -
  have la: "length a = n" and lb: "length bm = n"
    and rows: "\<And>row. row \<in> set bm \<Longrightarrow> length row = p"
    using a b by (auto simp: is_mat_def)
  let ?M = "map (\<lambda>row. map2 (*) row u) bm"
  have ax: "matmul_vec a x = Inr (mat_vec a x)"
    using ncols_is_mat [OF a n] x by (simp add: matmul_vec_def)
  have each: "map (\<lambda>row. bc1 (*) row u) bm = map (\<lambda>row. Inr (map2 (*) row u)) bm"
    using rows u by (simp add: bc1_def)
  have M: "is_mat n p ?M" using b u by (simp add: is_mat_def)
  have lax: "length (mat_vec a x) = n" by (simp add: la)
  show ?thesis
  proof (cases "n = 1")
    case True
    then obtain row where bm: "bm = [row]" using lb by (cases bm) auto
    have lrow: "length row = p" using rows bm by simp
    have bu: "np_binop (*) (Arr2 bm) (Arr1 u) = Inr (Arr2 [map2 (*) row u])"
      by (simp add: bm bc2_def bc1_def lrow u)
    have sq: "squeeze (Arr2 [map2 (*) row u]) = Arr1 (map2 (*) row u)"
      using p by (simp add: lrow u)
    obtain y where y: "mat_vec a x = [y]" using lax True by (cases "mat_vec a x") auto
    have add: "np_binop (+) (Arr1 [y]) (Arr1 (map2 (*) row u)) = Inr (Arr1 (map ((+) y) (map2 (*) row u)))"
      using p by (simp add: bc1_def lrow u)
    have "trace_step a (Arr2 bm) u x =
        setitem_row (length a) (Arr1 (map ((+) y) (map2 (*) row u)))"
      by (simp add: trace_step_def ax bu sq y add del: squeeze.simps np_binop.simps)
    then show ?thesis using p by (simp add: setitem_1d_def la True lrow u)
  next
    case False
    then have n2: "length bm \<noteq> 1" "bm \<noteq> []" using lb n by auto
    have bu: "np_binop (*) (Arr2 bm) (Arr1 u) = Inr (Arr2 ?M)"
      using n2 by (simp add: bc2_def each sequence_map_Inr)
    have "ncols ?M = p" using ncols_is_mat [OF M n] .
    then have sq: "squeeze (Arr2 ?M) = Arr2 ?M" using n2 p by simp
    have step: "trace_step a (Arr2 bm) u x =
        (case np_binop (+) (Arr1 (mat_vec a x)) (Arr2 ?M) of
           Inl e \<Rightarrow> Inl e | Inr s \<Rightarrow> setitem_row (length a) s)"
      by (simp add: trace_step_def ax bu sq del: squeeze.simps np_binop.simps)
    have lM: "length ?M \<noteq> 1" "?M \<noteq> []" "length ?M = n" using n2 lb by simp_all
    show ?thesis
    proof (cases "n = p")
      case True
      have "map (bc1 (+) (mat_vec a x)) ?M = map (\<lambda>row. Inr (map2 (+) (mat_vec a x) row)) ?M"
        using rows u True by (simp add: bc1_def la)
      then have "sequence (map (bc1 (+) (mat_vec a x)) ?M) =
          Inr (map (\<lambda>row. map2 (+) (mat_vec a x) row) ?M)"
        by (simp only: sequence_map_Inr)
      then have "np_binop (+) (Arr1 (mat_vec a x)) (Arr2 ?M) =
          Inr (Arr2 (map (\<lambda>row. map2 (+) (mat_vec a x) row) ?M))"
        using lM by (simp add: bc2_def del: map_map)
      then show ?thesis using lM by (simp add: step del: map_map)
    next
      case np: False
      have "sequence (map (bc1 (+) (mat_vec a x)) ?M) = Inl ValueError"
      proof (rule sequence_map_Inl)
        show "?M \<noteq> []" by (rule lM(2))
        fix r assume "r \<in> set ?M"
        then have "length r = p" using rows u by auto
        then show "bc1 (+) (mat_vec a x) r = Inl ValueError"
          using np False p by (simp add: bc1_def la)
      qed
      then have "np_binop (+) (Arr1 (mat_vec a x)) (Arr2 ?M) = Inl ValueError"
        using lM by (simp add: bc2_def del: map_map)
      then show ?thesis by (simp add: step)
    qed
  qed
qed

lemma make_state_trace_multi_input_raises:
  assumes a: "is_mat n n a" and n: "0 < n" and b: "is_mat n p bm" and p: "2 \<le> p"
    and u: "is_mat t p inpt" and t: "0 < t"
  shows "make_state_trace a (Arr2 bm) inpt None = Inl ValueError"
proof -
  have la: "length a = n" and lt: "length inpt = t" and lu: "length (inpt ! 0) = p"
    using a u t by (auto simp: is_mat_nth)
  have upt: "[0..<t] = 0 # [1..<t]" using t by (simp add: upt_rec)
  have step: "trace_step a (Arr2 bm) (inpt ! 0) (replicate n 0) = Inl ValueError"
    by (rule trace_step_multi_input [OF a n _ b p lu]) simp
  show ?thesis
    by (simp add: make_state_trace_def Let_def la lt setitem_1d_def upt step
        del: replicate_Suc replicate.simps)
qed

text \<open>
  \<^verbatim>\<open>make_random_system\<close> never reads \<^verbatim>\<open>n_inputs\<close>: whatever is asked for, every row of the
  returned input matrix has one entry.
\<close>

lemma make_random_system_one_input_column:
  assumes "make_random_system np_inv n_states n_inputs z_min z_max rs cs ccf g = Inr ((a, b), g')"
  shows "\<forall>row \<in> set b. length row = 1"
proof -
  let ?k = "n_states - int (length rs) - 2 * int (length cs)"
  obtain zr zc g3 where d: "drawn_eigenvalues z_min z_max rs cs ?k g = (zr, zc, g3)"
    by (cases "drawn_eigenvalues z_min z_max rs cs ?k g") auto
  have k: "0 < ?k" using assms by (auto simp: make_random_system_unfold Let_def split: if_splits)
  show ?thesis
  proof (cases ccf)
    case True
    let ?z = "ComplexRoots (zc @ map complex_of_real zr)"
    have "0 < len ?z" using drawn_eigenvalues_nonempty [OF k, of z_min z_max rs cs g] by (simp add: d)
    from make_ccf_eq [OF this] assms k True show ?thesis
      by (auto simp: make_random_system_unfold Let_def d)
  next
    case False
    with assms k have "make_random_system_from_eigenvalues np_inv zr zc 1 g3 = Inr ((a, b), g')"
      by (simp add: make_random_system_unfold Let_def d)
    then show ?thesis
      by (auto simp: make_random_system_from_eigenvalues_def Let_def rand2_def
          split: option.splits if_splits prod.splits)
  qed
qed

text \<open>
  With \<open>ccf=True\<close> the returned matrix has one row per drawn eigenvalue, a conjugate pair
  counting once: its dimension falls short of \<^verbatim>\<open>n_states\<close> by the number of pairs.
\<close>

lemma length_drawn_eigenvalues:
  assumes "0 < k" and "drawn_eigenvalues z_min z_max rs cs k g = (zr, zc, g3)"
  shows "length zr = length rs + nat (k mod 2)" and "length zc = nat (k div 2) + length cs"
  using assms by (auto simp: drawn_eigenvalues_def Let_def rand_def)

lemma make_random_system_ccf_dimension:
  assumes "make_random_system np_inv n_states n_inputs z_min z_max rs cs True g = Inr ((a, b), g')"
  shows "int (length a) + (n_states - int (length rs) - 2 * int (length cs)) div 2 + int (length cs)
         = n_states"
proof -
  let ?k = "n_states - int (length rs) - 2 * int (length cs)"
  obtain zr zc g3 where d: "drawn_eigenvalues z_min z_max rs cs ?k g = (zr, zc, g3)"
    by (cases "drawn_eigenvalues z_min z_max rs cs ?k g") auto
  have k: "0 < ?k" using assms by (auto simp: make_random_system_unfold Let_def split: if_splits)
  let ?z = "ComplexRoots (zc @ map complex_of_real zr)"
  have ne: "0 < len ?z" using drawn_eigenvalues_nonempty [OF k, of z_min z_max rs cs g] by (simp add: d)
  have "a = ccf_a ?z"
    using make_ccf_eq [OF ne] assms k by (simp add: make_random_system_unfold Let_def d)
  then have "length a = len ?z"
    using ccf_a_entries(1) [OF refl, of ?z] by (simp add: is_mat_def)
  then have "int (length a) = ?k div 2 + int (length cs) + int (length rs) + ?k mod 2"
    using length_drawn_eigenvalues [OF k d] k by simp
  then show ?thesis by presburger
qed

text \<open>
  Two small instances used below: a canonical-form matrix that lacks the eigenvalue asked
  for, and an underdetermined regression (one equation, two unknowns), on which the exact
  solver returns the solution of least norm.
\<close>

lemma not_eigenvalue_example: "\<not> eigenvalue [[0, 1], [0, 0]] (\<i> / 2)"
proof
  assume "eigenvalue [[0, 1], [0, 0]] (\<i> / 2)"
  then obtain v where v: "length v = Suc (Suc 0)" "v \<noteq> [0, 0]"
    "mat_vec (cmat [[0, 1], [0, 0]]) v = map ((*) (\<i> / 2)) v"
    by (auto simp: eigenvalue_def)
  from v(1) obtain x y where xy: "v = [x, y]"
    by (cases v; cases "tl v") auto
  from v(3) have "x = 0" "y = 0"
    by (auto simp: xy cmat_def mat_vec_def dot_def lessThan_Suc numeral_2_eq_2)
  with v(2) xy show False by simp
qed

lemma underdetermined_lstsq:
  "exact_lstsq [[1, 1]] [[2]] = [[1], [1]]"
  by code_simp

lemma underdetermined_lstsq_spec:
  "lstsq_spec (regressors [[1], [2]] [[1]]) (tl [[1], [2]]) (1 + 1) 1
     (exact_lstsq (regressors [[1], [2]] [[1]]) (tl [[1], [2]]))"
proof -
  have reg: "regressors [[1], [2]] [[1]] = [[1, 1 :: real]]" by (simp add: regressors_def)
  have shape: "\<exists>p q. y = [[p], [q]]" if "is_mat (1 + 1) 1 y" for y :: mat
  proof -
    from that have l: "length y = 2" and r: "\<forall>row \<in> set y. length row = 1"
      by (simp_all add: is_mat_def)
    from l obtain r1 r2 where y: "y = [r1, r2]" by (cases y; cases "tl y") auto
    with r obtain p q where "r1 = [p]" "r2 = [q]" by (cases r1; cases r2) auto
    with y show ?thesis by simp
  qed
  have res: "residual [[1, 1]] [[2]] [[p], [q]] = (p + q - 2) * (p + q - 2)" for p q :: real
    by (simp add: residual_def frob2_def sumsq_def mat_sub_def vec_sub_def mat_mul_def ncols_def
        col_def dot_def lessThan_Suc numeral_2_eq_2 add.commute)
  have nrm: "frob2 [[p], [q]] = p * p + q * q" for p q :: real
    by (simp add: frob2_def sumsq_def)
  show ?thesis
    unfolding reg lstsq_spec_def
  proof (intro conjI allI impI)
    show "is_mat (1 + 1) 1 (exact_lstsq [[1, 1]] (tl [[1], [2]]))"
      by (simp add: underdetermined_lstsq is_mat_def)
  next
    fix y :: mat assume "is_mat (1 + 1) 1 y"
    then obtain p q where "y = [[p], [q]]" using shape by blast
    then show "residual [[1, 1]] (tl [[1], [2]]) (exact_lstsq [[1, 1]] (tl [[1], [2]]))
        \<le> residual [[1, 1]] (tl [[1], [2]]) y"
      by (simp add: underdetermined_lstsq res)
  next
    fix y :: mat
    assume h: "is_mat (1 + 1) 1 y \<and>
      residual [[1, 1]] (tl [[1], [2]]) y =
      residual [[1, 1]] (tl [[1], [2]]) (exact_lstsq [[1, 1]] (tl [[1], [2]]))"
    then obtain p q where y: "y = [[p], [q]]" using shape by blast
    with h have "(p + q - 2) * (p + q - 2) = 0" by (simp add: underdetermined_lstsq res)
    then have q: "q = 2 - p" by simp
    have "p * p + q * q - 2 = 2 * ((p - 1) * (p - 1))" unfolding q by (simp add: algebra_simps)
    then have "2 \<le> p * p + q * q" using zero_le_square [of "p - 1"] by linarith
    then show "frob2 (exact_lstsq [[1, 1]] (tl [[1], [2]])) \<le> frob2 y"
      by (simp add: underdetermined_lstsq y nrm)
  qed
qed

subsection \<open>What \<^verbatim>\<open>identify_system\<close> returns\<close>

text \<open>
  For a single-input system with \<open>n \<ge> 1\<close> states and the trace \<^verbatim>\<open>make_state_trace\<close> returns
  for it, with regressors of full column rank and \<^verbatim>\<open>np.linalg.lstsq\<close> meeting its contract,
  \<^verbatim>\<open>identify_system\<close> returns the pair of transposes \<open>(A\<^sup>T, B\<^sup>T)\<close>.
\<close>

lemma round_trip_identification:
  assumes A: "is_mat n n A" and n: "0 < n" and B: "is_mat n 1 B" and U: "is_mat t 1 U"
    and x0: "length x0 = n"
    and init: "initial_state = Some (Arr1 x0) \<or> initial_state = None \<and> x0 = replicate n 0"
    and bm: "b_matrix = Arr2 B \<or> b_matrix = Arr1 (col B 0)"
    and tr: "make_state_trace A b_matrix U initial_state = Inr X"
    and fr: "full_col_rank (regressors X U) (n + 1)"
    and ls: "lstsq_spec (regressors X U) (tl X) (n + 1) n (lstsq (regressors X U) (tl X))"
  shows "identify_system lstsq X U = Inr (transposed n A, transposed 1 B)"
proof -
  have X: "X = recurrence_trace A B x0 U"
    using make_state_trace_recurrence [OF A n B U x0 init bm] tr by simp
  have lt: "length U = t" and la: "length A = n" and lb: "length B = n"
    using A B U by (auto simp: is_mat_def)
  have shape: "is_mat (t + 1) n X"
    unfolding X using is_mat_recurrence_trace [OF la lb x0, of U] by (simp add: lt)
  have ob: "obeys A B U X" unfolding X by (rule recurrence_trace_obeys)
  show ?thesis
    by (rule identify_exact [where lstsq = lstsq, OF shape U n A B ob fr ls])
qed

lemma round_trip_identification_instance:
  "is_mat 2 2 a_known \<and> is_mat 2 1 [[0], [1 :: real]] \<and> is_mat 3 1 u_trace \<and>
   make_state_trace a_known b_known u_trace None = Inr x_trace \<and>
   full_col_rank (regressors x_trace u_trace) (2 + 1) \<and>
   lstsq_spec (regressors x_trace u_trace) (tl x_trace) (2 + 1) 2
     (exact_lstsq (regressors x_trace u_trace) (tl x_trace)) \<and>
   identify_system exact_lstsq x_trace u_trace = Inr (transposed 2 a_known, transposed 1 [[0], [1]])"
proof -
  have n: "(0::nat) < 2" and x0: "length (replicate 2 (0::real)) = 2" by simp_all
  have init: "(None :: ndarray option) = Some (Arr1 (replicate 2 0)) \<or>
              (None :: ndarray option) = None \<and> replicate 2 (0::real) = replicate 2 0"
    by simp
  have bm: "b_known = Arr2 [[0], [1]] \<or> b_known = Arr1 (col [[0], [1]] 0)"
    by (simp add: b_known_def col_def)
  from round_trip_identification [where lstsq = exact_lstsq, OF example_shapes(1) n example_shapes(2)
      example_shapes(3) x0 init bm example_trace example_full_rank example_lstsq_spec]
  show ?thesis
    using example_shapes example_trace example_full_rank example_lstsq_spec by blast
qed

text \<open>
  Whatever the data, the transposes of the two returned arrays minimise the squared residual
  of \<open>X[i + 1] \<approx> a\<^sup>T X[i] + b\<^sup>T U[i]\<close>, and the stacked block has the least norm among the
  blocks that reach the same residual.
\<close>

lemma identify_system_least_squares:
  assumes X: "is_mat (t + 1) n X" and U: "is_mat t p U" and n: "0 < n"
    and ls: "lstsq_spec (regressors X U) (tl X) (n + p) n (lstsq (regressors X U) (tl X))"
  shows "\<exists>a b. identify_system lstsq X U = Inr (a, b) \<and> is_mat n n a \<and> is_mat p n b \<and>
           (\<forall>A B. is_mat n n A \<and> is_mat n p B \<longrightarrow>
              fit_error (transposed n a) (transposed n b) U X \<le> fit_error A B U X) \<and>
           (\<forall>a' b'. is_mat n n a' \<and> is_mat p n b' \<and>
                fit_error (transposed n a') (transposed n b') U X = fit_error (transposed n a) (transposed n b) U X \<longrightarrow>
              frob2 (a @ b) \<le> frob2 (a' @ b'))"
proof -
  let ?D = "regressors X U" and ?Y = "tl X"
  from identify_system_blocks [where lstsq = lstsq, OF X U ls] obtain a b where
    ab: "identify_system lstsq X U = Inr (a, b)" "is_mat n n a" "is_mat p n b"
      "a @ b = lstsq ?D ?Y"
    by blast
  have fit: "residual ?D ?Y (a' @ b') = fit_error (transposed n a') (transposed n b') U X"
    if "is_mat n n a'" "is_mat p n b'" for a' b'
    using residual_fit [OF X U that n] .
  have stack: "is_mat (n + p) n (a' @ b')" if "is_mat n n a'" "is_mat p n b'" for a' b'
    using that by (auto simp: is_mat_def)
  have min: "fit_error (transposed n a) (transposed n b) U X \<le> fit_error A B U X"
    if A: "is_mat n n A" and B: "is_mat n p B" for A B
  proof -
    have tA: "is_mat n n (transposed n A)" and tB: "is_mat p n (transposed p B)"
      using is_mat_transp [OF A] is_mat_transp [OF B] by auto
    have "residual ?D ?Y (a @ b) \<le> residual ?D ?Y (transposed n A @ transposed p B)"
      using ls stack [OF tA tB] by (simp add: lstsq_spec_def ab(4))
    then show ?thesis
      by (simp add: fit [OF ab(2,3)] fit [OF tA tB] transp_transp [OF A] transp_transp [OF B])
  qed
  have norm: "frob2 (a @ b) \<le> frob2 (a' @ b')"
    if a': "is_mat n n a'" and b': "is_mat p n b'"
      and eq: "fit_error (transposed n a') (transposed n b') U X = fit_error (transposed n a) (transposed n b) U X"
    for a' b'
  proof -
    have "residual ?D ?Y (a' @ b') = residual ?D ?Y (a @ b)"
      by (simp add: fit [OF ab(2,3)] fit [OF a' b'] eq)
    then show ?thesis
      using ls stack [OF a' b'] by (simp add: lstsq_spec_def ab(4))
  qed
  from ab(1-3) min norm show ?thesis by blast
qed

lemma identify_system_least_squares_instance:
  "is_mat (3 + 1) 2 x_trace \<and> is_mat 3 1 u_trace \<and> (0::nat) < 2 \<and>
   lstsq_spec (regressors x_trace u_trace) (tl x_trace) (2 + 1) 2
     (exact_lstsq (regressors x_trace u_trace) (tl x_trace)) \<and>
   (\<exists>a b. identify_system exact_lstsq x_trace u_trace = Inr (a, b) \<and>
      fit_error (transposed 2 a) (transposed 2 b) u_trace x_trace \<le>
        fit_error a_known [[0], [1]] u_trace x_trace) \<and>
   is_mat (1 + 1) 1 [[1], [2 :: real]] \<and> is_mat 1 1 [[1 :: real]] \<and> (0::nat) < 1 \<and>
   lstsq_spec (regressors [[1], [2]] [[1]]) (tl [[1], [2]]) (1 + 1) 1
     (exact_lstsq (regressors [[1], [2]] [[1]]) (tl [[1], [2]])) \<and>
   (\<exists>a b. identify_system exact_lstsq [[1], [2]] [[1]] = Inr (a, b) \<and>
      frob2 (a @ b) \<le> frob2 ([[2]] @ [[0]]))"
proof -
  have n: "(0::nat) < 2" by simp
  from identify_system_least_squares [where lstsq = exact_lstsq,
      OF example_shapes(4) example_shapes(3) n example_lstsq_spec]
  have 1: "\<exists>a b. identify_system exact_lstsq x_trace u_trace = Inr (a, b) \<and>
      fit_error (transposed 2 a) (transposed 2 b) u_trace x_trace \<le> fit_error a_known [[0], [1]] u_trace x_trace"
    using example_shapes(1,2) by blast
  have X: "is_mat (1 + 1) 1 [[1], [2 :: real]]" and U: "is_mat 1 1 [[1 :: real]]" and n1: "(0::nat) < 1"
    by (simp_all add: is_mat_def)
  from identify_system_least_squares [where lstsq = exact_lstsq, OF X U n1 underdetermined_lstsq_spec]
  obtain a b where ab: "identify_system exact_lstsq [[1], [2]] [[1]] = Inr (a, b)"
    and norm: "\<forall>a' b'. is_mat 1 1 a' \<and> is_mat 1 1 b' \<and>
        fit_error (transposed 1 a') (transposed 1 b') [[1]] [[1], [2]] =
        fit_error (transposed 1 a) (transposed 1 b) [[1]] [[1], [2]] \<longrightarrow>
        frob2 (a @ b) \<le> frob2 (a' @ b')"
    by blast
  have ev: "identify_system exact_lstsq [[1], [2]] [[1]] = Inr ([[1]], [[1]])"
    using identify_system_eq [OF X U, of exact_lstsq]
    by (simp add: regressors_def underdetermined_lstsq)
  have "Inr (a, b) = (Inr ([[1]], [[1]]) :: error + real list list \<times> real list list)"
    using ab ev by (rule trans [OF sym])
  hence a: "a = [[1]]" and b: "b = [[1]]" by (simp_all only: sum.inject prod.inject)
  have "fit_error (transposed 1 [[2]]) (transposed 1 [[0]]) [[1]] [[1], [2]] =
        fit_error (transposed 1 a) (transposed 1 b) [[1]] [[1], [2]]"
    unfolding a b
    by (simp add: fit_error_def transposed_def col_def mat_vec_def dot_def vec_add_def vec_sub_def sumsq_def)
  moreover have "is_mat 1 1 [[2 :: real]]" "is_mat 1 1 [[0 :: real]]" by (simp_all add: is_mat_def)
  ultimately have "frob2 (a @ b) \<le> frob2 ([[2]] @ [[0]])" using norm by blast
  with ab have 2: "\<exists>a b. identify_system exact_lstsq [[1], [2]] [[1]] = Inr (a, b) \<and>
      frob2 (a @ b) \<le> frob2 ([[2]] @ [[0]])"
    by blast
  show ?thesis
    using example_shapes(3,4) n example_lstsq_spec 1 X U n1 underdetermined_lstsq_spec 2
    by (intro conjI)
qed

text \<open>
  After a change of coordinates by an invertible \<open>T\<close>, the returned pair is
  \<open>((T A T\<^sup>-\<^sup>1)\<^sup>T, (T B)\<^sup>T)\<close>; the first returned matrix has the eigenvalues of \<open>A\<close>, and the
  traces of its powers are those of the powers of \<open>A\<close>.
\<close>

lemma similarity_invariance:
  assumes A: "is_mat n n A" and B: "is_mat n p B" and n: "0 < n"
    and T: "is_mat n n t_mat" and Ti: "is_mat n n t_inv"
    and inv1: "mat_mul t_mat t_inv = identity n" and inv2: "mat_mul t_inv t_mat = identity n"
    and X: "is_mat (t + 1) n X" and U: "is_mat t p U" and ob: "obeys A B U X"
    and fr: "full_col_rank (regressors X U) (n + p)"
    and tr: "transform_state_trace X (Some t_mat) g = Inr (Z, g')"
    and ls: "lstsq_spec (regressors Z U) (tl Z) (n + p) n (lstsq (regressors Z U) (tl Z))"
  shows "\<exists>a b. identify_system lstsq Z U = Inr (a, b) \<and>
           a = transposed n (mat_mul (mat_mul t_mat A) t_inv) \<and>
           b = transposed p (mat_mul t_mat B) \<and>
           (\<forall>z. eigenvalue a z \<longleftrightarrow> eigenvalue A z) \<and>
           (\<forall>k. trace (mat_pow a k) = trace (mat_pow A k))"
proof -
  let ?N = "mat_mul (mat_mul t_mat A) t_inv"
  have Z: "Z = map (mat_vec t_mat) X"
    using transform_rows [OF X T n, of g] tr by simp
  have lX: "length X = t + 1" using X by (simp add: is_mat_def)
  have shape: "is_mat (t + 1) n Z"
    unfolding Z using T lX by (simp add: is_mat_def)
  have N: "is_mat n n ?N" by (rule is_mat_mat_mul2 [OF is_mat_mat_mul2 [OF T A n] Ti n])
  have TB: "is_mat n p (mat_mul t_mat B)" by (rule is_mat_mat_mul2 [OF T B n])
  have ob': "obeys ?N (mat_mul t_mat B) U Z"
    unfolding Z by (rule transformed_obeys [OF A B T Ti n inv2 X U ob])
  have fr': "full_col_rank (regressors Z U) (n + p)"
    unfolding Z by (rule transformed_full_col_rank [OF T Ti n inv1 X U fr])
  have id: "identify_system lstsq Z U = Inr (transposed n ?N, transposed p (mat_mul t_mat B))"
    by (rule identify_exact [where lstsq = lstsq, OF shape U n N TB ob' fr' ls])
  have ev: "eigenvalue (transposed n ?N) z \<longleftrightarrow> eigenvalue A z" for z
    by (simp add: eigenvalue_transp [OF N] eigenvalue_similar [OF A T Ti n inv1 inv2])
  have tr: "trace (mat_pow (transposed n ?N) k) = trace (mat_pow A k)" for k
    by (rule trace_pow_transformed [OF A T Ti n inv1 inv2])
  from id ev tr show ?thesis by blast
qed

lemma similarity_invariance_instance:
  "is_mat 2 2 a_known \<and> is_mat 2 1 [[0], [1 :: real]] \<and> (0::nat) < 2 \<and>
   is_mat 2 2 t_mat_known \<and> is_mat 2 2 [[2, - 1], [- 5, 3 :: real]] \<and>
   mat_mul t_mat_known [[2, - 1], [- 5, 3]] = identity 2 \<and>
   mat_mul [[2, - 1], [- 5, 3]] t_mat_known = identity 2 \<and>
   is_mat (3 + 1) 2 x_trace \<and> is_mat 3 1 u_trace \<and> obeys a_known [[0], [1]] u_trace x_trace \<and>
   full_col_rank (regressors x_trace u_trace) (2 + 1) \<and>
   transform_state_trace x_trace (Some t_mat_known) (\<lambda>i. 0) = Inr (tx_trace, \<lambda>i. 0) \<and>
   lstsq_spec (regressors tx_trace u_trace) (tl tx_trace) (2 + 1) 2
     (exact_lstsq (regressors tx_trace u_trace) (tl tx_trace)) \<and>
   (\<exists>a b. identify_system exact_lstsq tx_trace u_trace = Inr (a, b) \<and>
      a = transposed 2 (mat_mul (mat_mul t_mat_known a_known) [[2, - 1], [- 5, 3]]) \<and>
      b = transposed 1 (mat_mul t_mat_known [[0], [1]]) \<and>
      (\<forall>z. eigenvalue a z \<longleftrightarrow> eigenvalue a_known z) \<and>
      (\<forall>k. trace (mat_pow a k) = trace (mat_pow a_known k)))"
proof -
  have n: "(0::nat) < 2" by simp
  note t = similarity_invariance [where lstsq = exact_lstsq, OF example_shapes(1,2) n
      example_t_inverse example_shapes(4,3) example_obeys example_full_rank
      example_transformed example_transformed_lstsq_spec]
  show ?thesis
    using t n example_shapes example_t_inverse example_obeys example_full_rank
      example_transformed example_transformed_lstsq_spec
    by (intro conjI)
qed

subsection \<open>Integer roots\<close>

text \<open>
  On \<^verbatim>\<open>int64\<close> roots the loop of \<^verbatim>\<open>roots2coeffs\<close> computes Vieta's integer modulo \<open>2\<^sup>6\<^sup>4\<close>,
  whatever wraps on the way; where that integer fits into \<^verbatim>\<open>int64\<close>, the coefficient is
  the one of the same roots read as complex numbers.
\<close>

lemma int_vieta_esym: "int_vieta ws i = (- 1) ^ i * esym i (map sint ws)"
proof -
  have "(\<Sum>S \<in> index_sets (length ws) i. \<Prod>j \<in> S. sint (ws ! j)) =
        (\<Sum>S \<in> index_sets (length (map sint ws)) i. \<Prod>j \<in> S. map sint ws ! j)"
    by (intro sum.cong prod.cong refl) (auto simp: index_sets_def)
  then show ?thesis by (simp add: int_vieta_def esym_index_sets)
qed

lemma esym_word_of_int: "esym k ws = (of_int (esym k (map sint ws)) :: 64 word)"
proof -
  have "esym k (map (of_int :: int \<Rightarrow> 64 word) (map sint ws)) = of_int (esym k (map sint ws))"
    by (rule esym_hom) simp_all
  then show ?thesis by (simp add: comp_def)
qed

lemma roots2coeffs_int_vieta:
  assumes "i < length ws"
  shows "roots2coeffs (IntRoots ws) ! i = of_int (signed_take_bit 63 (int_vieta ws (i + 1)))"
proof -
  have "(- 1) ^ (i + 1) * esym (i + 1) ws = (of_int (int_vieta ws (i + 1)) :: 64 word)"
    by (subst esym_word_of_int) (simp add: int_vieta_esym)
  then have "sint ((- 1) ^ (i + 1) * esym (i + 1) ws) = signed_take_bit 63 (int_vieta ws (i + 1))"
    by (simp only: sint_sbintrunc') simp
  then show ?thesis using assms by (simp add: roots2coeffs_int del: of_int_sint upt_Suc)
qed

lemma roots2coeffs_int_exact:
  assumes "\<forall>i < length ws. - (2 ^ 63) \<le> int_vieta ws (i + 1) \<and> int_vieta ws (i + 1) < 2 ^ 63"
  shows "roots2coeffs (IntRoots ws) = roots2coeffs (ComplexRoots (map (\<lambda>w. of_int (sint w)) ws))"
proof (rule nth_equalityI)
  show "length (roots2coeffs (IntRoots ws)) = length (roots2coeffs (ComplexRoots (map (\<lambda>w. of_int (sint w)) ws)))"
    by simp
next
  fix i assume "i < length (roots2coeffs (IntRoots ws))"
  then have i: "i < length ws" by simp
  with assms have r: "- (2 ^ 63) \<le> int_vieta ws (i + 1)" "int_vieta ws (i + 1) < 2 ^ 63" by auto
  have "signed_take_bit 63 (int_vieta ws (i + 1)) = int_vieta ws (i + 1)"
    using r by (simp add: signed_take_bit_int_eq_self)
  then have "roots2coeffs (IntRoots ws) ! i = of_int (int_vieta ws (i + 1))"
    using roots2coeffs_int_vieta [OF i] by simp
  also have "\<dots> = (- 1) ^ (i + 1) * esym (i + 1) (map (of_int :: int \<Rightarrow> complex) (map sint ws))"
    by (simp only: int_vieta_esym esym_hom [where h = "of_int :: int \<Rightarrow> complex", OF of_int_0 of_int_1 of_int_add of_int_mult]
        of_int_mult of_int_power of_int_minus of_int_1)
  also have "map (of_int :: int \<Rightarrow> complex) (map sint ws) = map (\<lambda>w. of_int (sint w)) ws"
    by (simp only: map_map comp_def)
  also have "(- 1) ^ (i + 1) * esym (i + 1) (map (\<lambda>w. of_int (sint w)) ws) =
      roots2coeffs (ComplexRoots (map (\<lambda>w. of_int (sint w)) ws)) ! i"
    using i by (simp add: roots2coeffs_map del: of_int_sint upt_Suc)
  finally show "roots2coeffs (IntRoots ws) ! i = roots2coeffs (ComplexRoots (map (\<lambda>w. of_int (sint w)) ws)) ! i" .
qed

text \<open>
  With no mandatory complex eigenvalue and a single random eigenvalue, every eigenvalue that
  \<^verbatim>\<open>make_random_system\<close> draws is real.
\<close>

lemma drawn_single_real:
  "drawn_eigenvalues z_min z_max rs [] 1 g = (rs @ [z_min + g 0 * (z_max - z_min)], [], snd (rand 1 g))"
  by (simp add: drawn_eigenvalues_def Let_def rand_def)

subsection \<open>The claims\<close>

text \<open>
  Claim C1 (round-trip identification), at an input the code fails on. The notebook's first
  system \<^verbatim>\<open>a_known\<close>, \<^verbatim>\<open>b_known\<close> with the three-step input \<open>[[1], [2], [-1]]\<close> has the
  noise-free trace \<^verbatim>\<open>x_trace\<close>, whose regressors have full column rank. From that trace
  and input \<^verbatim>\<open>identify_system\<close> must recover \<^verbatim>\<open>a_known\<close> \<open>= [[0, 1], [0.3, 0.2]]\<close>; it
  returns \<open>[[0, 0.3], [1, 0.2]]\<close>, the transpose: the rows of the \<^verbatim>\<open>lstsq\<close> solution are handed
  back as they are, although the docstring announces the \<open>A\<close> matrix.
\<close>

theorem identify_system_returns_transposes:
  "make_state_trace a_known b_known u_trace None = Inr x_trace \<and>
   identify_system exact_lstsq x_trace u_trace = Inr ([[0, 3 / 10], [1, 1 / 5]], [[0, 1]]) \<and>
   a_known = [[0, 1], [3 / 10, 1 / 5]] \<and>
   [[0, 3 / 10], [1, 1 / 5]] \<noteq> a_known"
  using example_trace example_identified by (simp add: a_known_def)

text \<open>
  Claim C2 (trajectory simulator), at an input the code fails on. For the \<open>2 \<times> 2\<close> identity
  as \<open>A\<close>, the \<open>2 \<times> 2\<close> input matrix \<open>[[1, 2], [3, 4]]\<close> and the single input vector \<open>[1, 1]\<close>
  the claim gives \<open>X[1] = A X[0] + B U[0] = [3, 7]\<close>; \<^verbatim>\<open>make_state_trace\<close> raises
  \<^verbatim>\<open>ValueError\<close> instead, because \<^verbatim>\<open>b_matrix * inpt[i]\<close> is the elementwise product.
\<close>

theorem make_state_trace_two_inputs_raises:
  "make_state_trace [[1, 0], [0, 1]] (Arr2 [[1, 2], [3, 4]]) [[1, 1]] None = Inl ValueError"
  by code_simp

text \<open>
  Claim C3 (least-squares identifier), at an input the code fails on. On the trace and input
  of the notebook's first system, the first array that \<^verbatim>\<open>identify_system\<close> returns is
  \<open>[[0, 0.3], [1, 0.2]]\<close>. Taken as the matrix \<open>a\<close> in \<open>X[i + 1] \<approx> a X[i] + b U[i]\<close>, with the
  input column \<open>[[0], [1]]\<close> as \<open>b\<close>, it leaves the squared residual \<open>3.3516\<close>, while
  \<^verbatim>\<open>a_known\<close> with the same column leaves none: the returned matrix is not a minimiser,
  its transpose is.
\<close>

theorem identify_system_not_least_squares:
  "identify_system exact_lstsq x_trace u_trace = Inr ([[0, 3 / 10], [1, 1 / 5]], [[0, 1]]) \<and>
   fit_error [[0, 3 / 10], [1, 1 / 5]] [[0], [1]] u_trace x_trace = 8379 / 2500 \<and>
   fit_error a_known [[0], [1]] u_trace x_trace = 0"
proof -
  have "fit_error [[0, 3 / 10], [1, 1 / 5]] [[0], [1]] u_trace x_trace = 8379 / 2500"
    by (simp add: fit_error_def u_trace_def x_trace_def mat_vec_def dot_def vec_add_def vec_sub_def
        sumsq_def lessThan_Suc numeral_3_eq_3 numeral_2_eq_2)
  moreover have "fit_error a_known [[0], [1]] u_trace x_trace = 0"
    by (simp add: fit_error_def a_known_def u_trace_def x_trace_def mat_vec_def dot_def vec_add_def
        vec_sub_def sumsq_def lessThan_Suc numeral_3_eq_3 numeral_2_eq_2)
  ultimately show ?thesis using example_identified by simp
qed

text \<open>
  Claim C4 (similarity invariance), at an input the code fails on. The notebook's second
  example maps \<^verbatim>\<open>x_trace\<close> through \<^verbatim>\<open>transform_state_trace\<close> with \<open>T = [[3, 1], [5, 2]]\<close>,
  whose inverse is \<open>[[2, -1], [-5, 3]]\<close>, and identifies from the result. The claim gives
  \<open>T A T\<^sup>-\<^sup>1 = [[-15.4, 9.3], [-25.8, 15.6]]\<close>; \<^verbatim>\<open>identify_system\<close> returns
  \<open>[[-15.4, -25.8], [9.3, 15.6]]\<close>, the transpose, together with \<open>T B = [[1], [2]]\<close> laid
  out as the row \<open>[[1, 2]]\<close>.
\<close>

theorem similarity_returns_transposes:
  "transform_state_trace x_trace (Some t_mat_known) (\<lambda>i. 0) = Inr (tx_trace, \<lambda>i. 0) \<and>
   identify_system exact_lstsq tx_trace u_trace =
     Inr ([[- (77 / 5), - (129 / 5)], [93 / 10, 78 / 5]], [[1, 2]]) \<and>
   mat_mul t_mat_known [[2, - 1], [- 5, 3]] = identity 2 \<and>
   mat_mul (mat_mul t_mat_known a_known) [[2, - 1], [- 5, 3]] =
     [[- (77 / 5), 93 / 10], [- (129 / 5), 78 / 5]] \<and>
   mat_mul t_mat_known [[0], [1]] = [[1], [2]] \<and>
   [[- (77 / 5), - (129 / 5)], [93 / 10, 78 / 5]] \<noteq> [[- (77 / 5), 93 / 10], [- (129 / 5), 78 / 5 :: real]]"
proof -
  have "mat_mul (mat_mul t_mat_known a_known) [[2, - 1], [- 5, 3]] =
     [[- (77 / 5), 93 / 10], [- (129 / 5), 78 / 5]]"
    unfolding t_mat_known_def a_known_def by code_simp
  moreover have "mat_mul t_mat_known [[0], [1]] = [[1], [2]]"
    unfolding t_mat_known_def by code_simp
  moreover have "mat_mul t_mat_known [[2, - 1], [- 5, 3]] = identity 2"
    unfolding t_mat_known_def by code_simp
  ultimately show ?thesis
    using example_transformed example_transformed_identified
    by simp
qed

text \<open>
  Claim C5 (random system generator), at an input the code fails on. The call
  \<^verbatim>\<open>make_random_system(3, 1, 0, 1, [], [0.5j], ccf=True)\<close> must return a \<open>3 \<times> 3\<close> matrix with
  the eigenvalues \<open>0.5j\<close>, \<open>-0.5j\<close> and one random real one. With every uniform draw equal to
  zero it returns the \<open>2 \<times> 2\<close> matrix \<open>[[0, 1], [0, 0]]\<close>, of which \<open>0.5j\<close> is not an eigenvalue:
  the canonical-form branch passes one representative of each conjugate pair on and keeps
  the real part of the coefficients.
\<close>

theorem make_random_system_ccf_drops_conjugates:
  "map_sum id fst (make_random_system exact_inv 3 1 0 1 [] [\<i> / 2] True (\<lambda>i. 0)) =
     Inr ([[0, 1], [0, 0]], [[0], [1]]) \<and>
   \<not> eigenvalue [[0, 1], [0, 0]] (\<i> / 2)"
  using not_eigenvalue_example
  by (simp add: make_random_system_unfold drawn_c5 make_ccf_system_from_eigenvalues_def roots2coeffs_map
      Let_def set2_def upt_rec)




text \<open>
  Claim C7, with the element type of the roots told apart. \<^verbatim>\<open>roots2coeffs\<close> returns as many
  coefficients as there are roots. For float or complex roots the coefficient at position
  \<open>i - 1\<close> is \<open>(-1)\<^sup>i\<close> times the sum, over all \<open>i\<close>-element sets of positions, of the product
  of the roots at those positions, and they are the coefficients \<open>a\<^sub>1, \<dots>, a\<^sub>n\<close> of the monic
  polynomial with exactly those roots. For \<^verbatim>\<open>int64\<close> roots the coefficient is that integer
  reduced modulo \<open>2\<^sup>6\<^sup>4\<close> into the range of \<^verbatim>\<open>int64\<close>; when every such integer lies in the
  range, the coefficients are those of the same roots read as complex numbers. Roots
  \<open>[2, 3]\<close> give \<open>[-5, 6]\<close>, roots \<open>[1, -1]\<close> give \<open>[0, -1]\<close>, and no root gives no
  coefficient, for either element type.
\<close>

theorem roots2coeffs_vieta:
  "length (roots2coeffs roots) = len roots \<and>
   (\<forall>i < length rs. roots2coeffs (ComplexRoots rs) ! i =
      (- 1) ^ (i + 1) * (\<Sum>S \<in> index_sets (length rs) (i + 1). \<Prod>j \<in> S. rs ! j)) \<and>
   (\<forall>s. (\<Prod>r \<leftarrow> rs. s - r) =
      s ^ length rs + (\<Sum>i < length rs. roots2coeffs (ComplexRoots rs) ! i * s ^ (length rs - 1 - i))) \<and>
   (\<forall>i < length ws. roots2coeffs (IntRoots ws) ! i =
      of_int (signed_take_bit 63 (int_vieta ws (i + 1)))) \<and>
   ((\<forall>i < length ws. - (2 ^ 63) \<le> int_vieta ws (i + 1) \<and> int_vieta ws (i + 1) < 2 ^ 63) \<longrightarrow>
      roots2coeffs (IntRoots ws) = roots2coeffs (ComplexRoots (map (\<lambda>w. of_int (sint w)) ws))) \<and>
   roots2coeffs (IntRoots [2, 3]) = [- 5, 6] \<and>
   roots2coeffs (ComplexRoots [2, 3]) = [- 5, 6] \<and>
   roots2coeffs (IntRoots [1, - 1]) = [0, - 1] \<and>
   roots2coeffs (ComplexRoots [1, - 1]) = [0, - 1] \<and>
   roots2coeffs (IntRoots []) = [] \<and>
   roots2coeffs (ComplexRoots []) = []"
proof (intro conjI allI impI)
  show "length (roots2coeffs roots) = len roots" by simp
next
  fix i assume "i < length rs"
  then show "roots2coeffs (ComplexRoots rs) ! i =
      (- 1) ^ (i + 1) * (\<Sum>S \<in> index_sets (length rs) (i + 1). \<Prod>j \<in> S. rs ! j)"
    by (simp add: roots2coeffs_map esym_index_sets del: upt_Suc)
next
  fix s
  let ?n = "length rs"
  have "(\<Prod>r \<leftarrow> rs. s - r) = (\<Sum>i \<le> ?n. (- 1) ^ i * esym i rs * s ^ (?n - i))"
    by (rule monic_expand)
  also have "\<dots> = s ^ ?n + (\<Sum>i < ?n. (- 1) ^ Suc i * esym (Suc i) rs * s ^ (?n - Suc i))"
    by (simp add: sum.atMost_shift del: sum.lessThan_Suc)
  also have "(\<Sum>i < ?n. (- 1) ^ Suc i * esym (Suc i) rs * s ^ (?n - Suc i)) =
             (\<Sum>i < ?n. roots2coeffs (ComplexRoots rs) ! i * s ^ (?n - 1 - i))"
    by (intro sum.cong refl) (simp add: roots2coeffs_map del: upt_Suc)
  finally show "(\<Prod>r \<leftarrow> rs. s - r) =
      s ^ ?n + (\<Sum>i < ?n. roots2coeffs (ComplexRoots rs) ! i * s ^ (?n - 1 - i))" .
next
  fix i assume "i < length ws"
  then show "roots2coeffs (IntRoots ws) ! i = of_int (signed_take_bit 63 (int_vieta ws (i + 1)))"
    by (rule roots2coeffs_int_vieta)
next
  assume "\<forall>i < length ws. - (2 ^ 63) \<le> int_vieta ws (i + 1) \<and> int_vieta ws (i + 1) < 2 ^ 63"
  then show "roots2coeffs (IntRoots ws) = roots2coeffs (ComplexRoots (map (\<lambda>w. of_int (sint w)) ws))"
    by (rule roots2coeffs_int_exact)
next
  show "roots2coeffs (IntRoots [2, 3]) = [- 5, 6]"
    by (simp add: roots2coeffs_int upt_rec)
next
  show "roots2coeffs (ComplexRoots [2, 3]) = [- 5, 6]"
    by (simp add: roots2coeffs_map upt_rec)
next
  show "roots2coeffs (IntRoots [1, - 1]) = [0, - 1]"
    by (simp add: roots2coeffs_int upt_rec)
next
  show "roots2coeffs (ComplexRoots [1, - 1]) = [0, - 1]"
    by (simp add: roots2coeffs_map upt_rec)
next
  show "roots2coeffs (IntRoots []) = []"
    by (simp add: roots2coeffs_int)
next
  show "roots2coeffs (ComplexRoots []) = []"
    by (simp add: roots2coeffs_map)
qed

theorem roots2coeffs_vieta_witness:
  "(1::nat) < length [2, 3 :: complex] \<and>
   roots2coeffs (ComplexRoots [2, 3]) ! 1 =
     (- 1) ^ (1 + 1) * (\<Sum>S \<in> index_sets (length [2, 3 :: complex]) (1 + 1). \<Prod>j \<in> S. [2, 3] ! j) \<and>
   (1::nat) < length [2, 3 :: 64 word] \<and>
   roots2coeffs (IntRoots [2, 3]) ! 1 = of_int (signed_take_bit 63 (int_vieta [2, 3] (1 + 1))) \<and>
   int_vieta [2, 3] (0 + 1) = - 5 \<and> int_vieta [2, 3] (1 + 1) = 6 \<and>
   roots2coeffs (IntRoots [2, 3]) =
     roots2coeffs (ComplexRoots (map (\<lambda>w. of_int (sint w)) [2, 3 :: 64 word]))"
proof -
  have h: "(1::nat) < length [2, 3 :: complex]" by simp
  have hw: "(1::nat) < length [2, 3 :: 64 word]" by simp
  have v: "int_vieta [2, 3] (0 + 1) = - 5" "int_vieta [2, 3] (1 + 1) = 6"
    by (simp_all add: int_vieta_esym)
  have r: "\<forall>i < length [2, 3 :: 64 word].
      - (2 ^ 63) \<le> int_vieta [2, 3] (i + 1) \<and> int_vieta [2, 3] (i + 1) < 2 ^ 63"
    using v by (simp add: less_Suc_eq numeral_2_eq_2)
  note t = roots2coeffs_vieta [of "IntRoots []" "[2, 3]" "[2, 3]"]
  note c2 = t [THEN conjunct2, THEN conjunct1, rule_format, OF h]
  note c4 = t [THEN conjunct2, THEN conjunct2, THEN conjunct2, THEN conjunct1, rule_format, OF hw]
  note c5 = t [THEN conjunct2, THEN conjunct2, THEN conjunct2, THEN conjunct2, THEN conjunct1, THEN mp, OF r]
  from h c2 hw c4 v c5 show ?thesis by (intro conjI)
qed

text \<open>
  The claim as stated fails for integer roots whose products leave the range of
  \<^verbatim>\<open>int64\<close>: for the roots \<open>[2\<^sup>3\<^sup>2, 2\<^sup>3\<^sup>2]\<close> Vieta's formula gives \<open>a\<^sub>2 = 2\<^sup>6\<^sup>4\<close>, and
  \<^verbatim>\<open>roots2coeffs\<close> returns \<open>[-2\<^sup>3\<^sup>3, 0]\<close>.
\<close>

theorem roots2coeffs_int64_counterexample:
  "roots2coeffs (IntRoots [4294967296, 4294967296]) = [- 8589934592, 0] \<and>
   (- 1) ^ 2 * (\<Sum>S \<in> index_sets 2 2. \<Prod>j \<in> S. [4294967296, 4294967296 :: complex] ! j) =
     18446744073709551616"
proof -
  have "roots2coeffs (IntRoots [4294967296, 4294967296]) = [- 8589934592, 0]"
    by (simp add: roots2coeffs_int upt_rec)
  moreover have "(\<Sum>S \<in> index_sets 2 2. \<Prod>j \<in> S. [4294967296, 4294967296 :: complex] ! j) =
      esym 2 [4294967296, 4294967296]"
  proof -
    have l: "length [4294967296, 4294967296 :: complex] = 2" by simp
    show ?thesis using esym_index_sets [of 2 "[4294967296, 4294967296 :: complex]"] unfolding l by simp
  qed
  moreover have "esym 2 [4294967296, 4294967296 :: complex] = 18446744073709551616"
    by (simp add: numeral_2_eq_2)
  ultimately show ?thesis by simp
qed

text \<open>
  Claim C8. \<^verbatim>\<open>make_random_system\<close> ends in an \<^verbatim>\<open>AssertionError\<close> exactly when
  \<open>n_states\<close> is at most the number of mandatory real eigenvalues plus twice the number of
  mandatory complex ones; no other routine ever ends in an \<^verbatim>\<open>AssertionError\<close>.
\<close>

theorem assertion_only_in_make_random_system:
  "((\<exists>msg. make_random_system np_inv n_states n_inputs z_min z_max rs cs ccf g = Inl (AssertionError msg))
      \<longleftrightarrow> n_states \<le> int (length rs) + 2 * int (length cs)) \<and>
   make_state_trace a_matrix b_matrix inpt initial_state \<noteq> Inl (AssertionError m1) \<and>
   identify_system lstsq state_trace inpt' \<noteq> Inl (AssertionError m2) \<and>
   transform_state_trace state_trace' t_mat g1 \<noteq> Inl (AssertionError m3) \<and>
   make_ccf_system_from_eigenvalues eigvals \<noteq> Inl (AssertionError m4) \<and>
   make_random_system_from_eigenvalues np_inv' eigvals_real eigvals_complex k g2 \<noteq> Inl (AssertionError m5)"
proof (intro conjI)
  show "(\<exists>msg. make_random_system np_inv n_states n_inputs z_min z_max rs cs ccf g = Inl (AssertionError msg))
      \<longleftrightarrow> n_states \<le> int (length rs) + 2 * int (length cs)"
    by (simp add: make_random_system_assert)
  show "make_state_trace a_matrix b_matrix inpt initial_state \<noteq> Inl (AssertionError m1)"
    using make_state_trace_error by blast
  show "identify_system lstsq state_trace inpt' \<noteq> Inl (AssertionError m2)"
    using identify_system_error by blast
  show "transform_state_trace state_trace' t_mat g1 \<noteq> Inl (AssertionError m3)"
    using transform_state_trace_error by blast
  show "make_ccf_system_from_eigenvalues eigvals \<noteq> Inl (AssertionError m4)"
    by (rule make_ccf_not_assert)
  show "make_random_system_from_eigenvalues np_inv' eigvals_real eigvals_complex k g2 \<noteq> Inl (AssertionError m5)"
    by (rule from_eigenvalues_not_assert)
qed

text \<open>
  Claim C9 (shape of the input matrix), at an input the code fails on. The call
  \<^verbatim>\<open>make_random_system(3, 2, 0.5, 1)\<close> asks for two inputs; with every uniform draw equal to
  zero it returns the input matrix \<open>[[0], [0], [0]]\<close>, which has one column, not two.
\<close>

theorem make_random_system_ignores_n_inputs:
  "map_sum id fst (make_random_system exact_inv 3 2 (1 / 2) 1 [] [] False (\<lambda>i. 0)) =
     Inr ([[1 / 2, 0, 0], [0, 1 / 2, 0], [0, 0, 1 / 2]], [[0], [0], [0]])"
  by (simp add: make_random_system_unfold drawn_c9 make_random_system_from_eigenvalues_def Let_def rand2_def
      identity_def mat_add_def vec_add_def exact_inv_def eliminate_def vec_sub_def upt_rec ncols_def
      mat_mul_def col_def dot_def)

text \<open>
  Claim C10. For a state trace \<open>X\<close> of shape \<open>(T + 1) \<times> n\<close> with \<open>n \<ge> 1\<close> and an input \<open>U\<close> of
  shape \<open>T \<times> p\<close>, and \<^verbatim>\<open>np.linalg.lstsq\<close> meeting its contract, \<^verbatim>\<open>identify_system\<close> returns
  arrays \<open>a\<close> of shape \<open>n \<times> n\<close> and \<open>b\<close> of shape \<open>p \<times> n\<close>; stacked, they minimise the squared
  Frobenius norm of \<open>[X[0..T-1] | U] M - X[1..T]\<close> over all \<open>(n + p) \<times> n\<close> matrices \<open>M\<close>; and
  when the data satisfy \<open>X[i + 1] = A X[i] + B U[i]\<close> exactly and the regressors have full
  column rank, \<open>a = A\<^sup>T\<close> and \<open>b = B\<^sup>T\<close>.
\<close>

theorem identify_system_transposed_blocks:
  assumes X: "is_mat (t + 1) n X" and U: "is_mat t p U" and n: "0 < n"
    and ls: "lstsq_spec (regressors X U) (tl X) (n + p) n (lstsq (regressors X U) (tl X))"
  shows "\<exists>a b. identify_system lstsq X U = Inr (a, b) \<and> is_mat n n a \<and> is_mat p n b \<and>
           (\<forall>M. is_mat (n + p) n M \<longrightarrow>
              residual (regressors X U) (tl X) (a @ b) \<le> residual (regressors X U) (tl X) M) \<and>
           (\<forall>A B. is_mat n n A \<and> is_mat n p B \<and> obeys A B U X \<and>
                  full_col_rank (regressors X U) (n + p) \<longrightarrow>
              a = transposed n A \<and> b = transposed p B)"
proof -
  from identify_system_blocks [where lstsq = lstsq, OF X U ls] obtain a b where
    ab: "identify_system lstsq X U = Inr (a, b)" "is_mat n n a" "is_mat p n b"
      "a @ b = lstsq (regressors X U) (tl X)"
    by blast
  have min: "\<forall>M. is_mat (n + p) n M \<longrightarrow>
      residual (regressors X U) (tl X) (a @ b) \<le> residual (regressors X U) (tl X) M"
    using ls by (simp add: lstsq_spec_def ab(4))
  have exact: "\<forall>A B. is_mat n n A \<and> is_mat n p B \<and> obeys A B U X \<and>
      full_col_rank (regressors X U) (n + p) \<longrightarrow> a = transposed n A \<and> b = transposed p B"
  proof (intro allI impI)
    fix A B
    assume h: "is_mat n n A \<and> is_mat n p B \<and> obeys A B U X \<and> full_col_rank (regressors X U) (n + p)"
    then have "identify_system lstsq X U = Inr (transposed n A, transposed p B)"
      using identify_exact [where lstsq = lstsq, OF X U n _ _ _ _ ls] by blast
    with ab(1) show "a = transposed n A \<and> b = transposed p B" by simp
  qed
  from ab(1-3) min exact show ?thesis by blast
qed

theorem identify_system_transposed_blocks_witness:
  "is_mat (3 + 1) 2 x_trace \<and> is_mat 3 1 u_trace \<and> (0::nat) < 2 \<and>
   lstsq_spec (regressors x_trace u_trace) (tl x_trace) (2 + 1) 2
     (exact_lstsq (regressors x_trace u_trace) (tl x_trace)) \<and>
   (\<exists>a b. identify_system exact_lstsq x_trace u_trace = Inr (a, b) \<and> is_mat 2 2 a \<and> is_mat 1 2 b)"
proof -
  have n: "(0::nat) < 2" by simp
  from identify_system_transposed_blocks [where lstsq = exact_lstsq, OF example_shapes(4) example_shapes(3) n example_lstsq_spec]
  have "\<exists>a b. identify_system exact_lstsq x_trace u_trace = Inr (a, b) \<and> is_mat 2 2 a \<and> is_mat 1 2 b"
    by blast
  with example_shapes example_lstsq_spec n show ?thesis by blast
qed

end
